theory Spec2Isabelle
  imports Main
begin

section \<open>JavaScript values and string conversions\<close>

text \<open>
  The two translators of the repository are \<^verbatim>\<open>toSQL\<close> (src/projections.ts), which renders a
  parsed operator tree as a constraint string, and \<^verbatim>\<open>toSequelize\<close> (src/sequelize.ts), which
  rewrites the raw filter object into a Sequelize \<^verbatim>\<open>where\<close> descriptor. Both are modelled as
  pure functions; a JavaScript exception is the \<open>Inl\<close> branch of a sum.
\<close>

datatype error =
    Error string        \<comment> \<open>\<^verbatim>\<open>throw new Error(message)\<close>\<close>
  | TypeError string    \<comment> \<open>a TypeError raised by the JavaScript runtime\<close>

text \<open>
  Numbers. The string of a JavaScript number (\<^verbatim>\<open>Number::toString\<close> of ECMAScript, which a
  template literal \<^verbatim>\<open>${o}\<close> applies) is computed from the decimal digits \<open>s\<close> and the
  exponent \<open>n\<close> of its shortest decimal representation: a finite number other than zero is
  \<open>\<plusminus> s \<times> 10^(n - k)\<close>, where \<open>k\<close> is the number of digits of \<open>s\<close> and \<open>s\<close> has as few
  digits as denote the number. A number is modelled by this representation: \<open>Decimal neg s n\<close>
  (zero when \<open>s = 0\<close>), besides \<^verbatim>\<open>NaN\<close> and the two infinities. So \<^verbatim>\<open>12\<close> is
  \<open>Decimal False 12 2\<close>, \<^verbatim>\<open>1.5\<close> is \<open>Decimal False 15 1\<close>, \<^verbatim>\<open>1e21\<close> is
  \<open>Decimal False 1 22\<close> and \<^verbatim>\<open>2**64\<close> is \<open>Decimal False 18446744073709552 20\<close>. Every
  JavaScript number has such a value (with at most 17 digits); trailing zeros of \<open>s\<close> are
  dropped before printing, since they are not part of the shortest representation.
\<close>

datatype number = NaN | Infinity bool | Decimal bool nat int

definition digit_char :: "nat \<Rightarrow> char" where
  "digit_char d = ''0123456789'' ! d"

fun show_nat :: "nat \<Rightarrow> string" where
  "show_nat n = (if n < 10 then [digit_char n] else show_nat (n div 10) @ [digit_char (n mod 10)])"

declare show_nat.simps [simp del]

definition strip_zeros :: "string \<Rightarrow> string" where
  "strip_zeros ds = rev (dropWhile (\<lambda>c. c = CHR ''0'') (rev ds))"

text \<open>
  Steps 7 to 11 of \<^verbatim>\<open>Number::toString\<close> for the digits \<open>ds\<close> (\<open>k = length ds\<close>) and the
  exponent \<open>n\<close>: an integer of at most 21 digits, a decimal fraction, a fraction below one with
  at most five zeros after the point, and the exponential notation otherwise.
\<close>

definition decimal_string :: "string \<Rightarrow> int \<Rightarrow> string" where
  "decimal_string ds n =
     (if int (length ds) \<le> n \<and> n \<le> 21 then ds @ replicate (nat (n - int (length ds))) CHR ''0''
      else if 0 < n \<and> n \<le> 21 then take (nat n) ds @ ''.'' @ drop (nat n) ds
      else if - 6 < n \<and> n \<le> 0 then ''0.'' @ replicate (nat (- n)) CHR ''0'' @ ds
      else (if length ds = 1 then ds else take 1 ds @ ''.'' @ drop 1 ds) @ ''e'' @
           (if n - 1 < 0 then ''-'' else ''+'') @ show_nat (nat \<bar>n - 1\<bar>))"

fun number_to_string :: "number \<Rightarrow> string" where
  "number_to_string NaN = ''NaN''"
| "number_to_string (Infinity neg) = (if neg then ''-Infinity'' else ''Infinity'')"
| "number_to_string (Decimal neg s n) =
     (if s = 0 then ''0''
      else (if neg then ''-'' else []) @ decimal_string (strip_zeros (show_nat s)) n)"

text \<open>
  The number of an integer literal (exact for the integers up to \<open>2^53\<close> in absolute value,
  whose shortest representation is their own digits).
\<close>

definition int_number :: "int \<Rightarrow> number" where
  "int_number i = Decimal (i < 0) (nat \<bar>i\<bar>) (int (length (show_nat (nat \<bar>i\<bar>))))"

text \<open>Scalars; strings are \<open>char list\<close>.\<close>

datatype scalar = Undefined | Null | Bool bool | Num number | Str string

text \<open>\<^verbatim>\<open>String(x)\<close> of a scalar, as a template literal \<^verbatim>\<open>${x}\<close> computes it.\<close>

fun to_string :: "scalar \<Rightarrow> string" where
  "to_string Undefined = ''undefined''"
| "to_string Null = ''null''"
| "to_string (Bool b) = (if b then ''true'' else ''false'')"
| "to_string (Num n) = number_to_string n"
| "to_string (Str s) = s"

text \<open>
  A template literal applied to a value that is a string or \<^verbatim>\<open>undefined\<close> (\<open>None\<close>), and
  the conversion \<^verbatim>\<open>Array.prototype.join\<close> applies to such an element (\<^verbatim>\<open>undefined\<close> is
  joined as the empty string).
\<close>

definition template :: "string option \<Rightarrow> string" where
  "template x = (case x of None \<Rightarrow> ''undefined'' | Some s \<Rightarrow> s)"

definition join_element :: "string option \<Rightarrow> string" where
  "join_element x = (case x of None \<Rightarrow> [] | Some s \<Rightarrow> s)"

fun join :: "string \<Rightarrow> string list \<Rightarrow> string" where
  "join sep [] = []"
| "join sep [x] = x"
| "join sep (x # y # ys) = x @ sep @ join sep (y # ys)"

definition quoted :: "string \<Rightarrow> string" where
  "quoted s = CHR 0x27 # s @ [CHR 0x27]"

section \<open>The operator tree and the string renderer (src/projections.ts)\<close>

text \<open>
  The operand of a tree node is a scalar or an array; a node is
  \<^verbatim>\<open>{operator?, field?, operand?, parts?}\<close>. An absent property is \<open>None\<close> (for the operand:
  \<open>Scalar Undefined\<close>).
\<close>

datatype operand = Scalar scalar | Array "operand list"

datatype node =
  Node (operator: "string option") (field: "string option") (operand: operand)
       (parts: "node list option")

text \<open>\<^verbatim>\<open>if (q.operator)\<close>, \<^verbatim>\<open>if (q.field)\<close>: an absent or empty string is falsy.\<close>

definition truthy :: "string option \<Rightarrow> bool" where
  "truthy s = (case s of None \<Rightarrow> False | Some t \<Rightarrow> t \<noteq> [])"

text \<open>\<^verbatim>\<open>q.field || ''\<close>, and the read of a property known to be a non-empty string.\<close>

definition or_empty :: "string option \<Rightarrow> string" where
  "or_empty s = (case s of None \<Rightarrow> [] | Some t \<Rightarrow> t)"

definition getSqlOperator :: "string \<Rightarrow> error + string" where
  "getSqlOperator o' =
     (if o' = ''$eq'' then Inr ''=''
      else if o' = ''$lt'' then Inr ''<''
      else if o' = ''$lte'' then Inr ''<=''
      else if o' = ''$gt'' then Inr ''>''
      else if o' = ''$gte'' then Inr ''>=''
      else if o' = ''$in'' then Inr ''in''
      else if o' = ''$and'' then Inr ''and''
      else if o' = ''$or'' then Inr ''or''
      else Inl (Error (''Unrecognized operator '' @ quoted o' @ ''.'')))"

text \<open>
  \<^verbatim>\<open>getOperand\<close> has no branch for \<^verbatim>\<open>null\<close> and \<^verbatim>\<open>undefined\<close>, where it returns
  \<^verbatim>\<open>undefined\<close> (\<open>None\<close>).
\<close>

fun getOperand :: "operand \<Rightarrow> string option" where
  "getOperand (Scalar (Str s)) = Some (quoted s)"
| "getOperand (Scalar (Num n)) = Some (number_to_string n)"
| "getOperand (Scalar (Bool b)) = Some (if b then ''true'' else ''false'')"
| "getOperand (Array xs) =
     (if length xs = 0 then Some ''[]''
      else Some (join '', '' (map (\<lambda>u. join_element (getOperand u)) xs)))"
| "getOperand (Scalar Undefined) = None"
| "getOperand (Scalar Null) = None"

text \<open>
  The body of the branch \<^verbatim>\<open>if (q.field)\<close> (lines 51 to 75): the string added to \<^verbatim>\<open>s\<close>
  for a predicate node, or the error of \<^verbatim>\<open>getSqlOperator\<close>.
\<close>

definition toSQL_predicate :: "string \<Rightarrow> string \<Rightarrow> operand \<Rightarrow> string \<Rightarrow> error + string" where
  "toSQL_predicate opr fld opd variable =
     (case opd of
        Array xs \<Rightarrow>
          (if opr = ''$all'' then
             Inr (''('' @ template (getOperand opd) @ '' in '' @ variable @ ''.'' @ fld @ '')'')
           else
             (case getSqlOperator opr of
                Inl e \<Rightarrow> Inl e
              | Inr symbol \<Rightarrow>
                  Inr (''('' @ variable @ ''.'' @ fld @ '' '' @ symbol @ '' ('' @
                       template (getOperand opd) @ ''))'')))
      | Scalar x \<Rightarrow>
          (if opr = ''$size'' then
             Inr (''(length('' @ variable @ ''.'' @ fld @ '') = '' @
                  template (getOperand opd) @ '')'')
           else if opr = ''$startsWith'' then
             Inr (''('' @ variable @ ''.'' @ fld @ '' like '' @ quoted (to_string x @ ''%'') @ '')'')
           else if opr = ''$contains'' then
             Inr (''('' @ variable @ ''.'' @ fld @ '' like '' @
                  quoted (''%'' @ to_string x @ ''%'') @ '')'')
           else if opr = ''$regex'' then
             Inr (''('' @ variable @ ''.'' @ fld @ '' regexp '' @ quoted (to_string x) @ '')'')
           else
             (case getSqlOperator opr of
                Inl e \<Rightarrow> Inl e
              | Inr symbol \<Rightarrow>
                  Inr (''('' @ variable @ ''.'' @ fld @ '' '' @ symbol @ '' '' @
                       template (getOperand opd) @ '')''))))"

text \<open>
  \<^verbatim>\<open>toSQL(q, variable, level)\<close>. \<open>toSQL_parts\<close> is the loop over \<^verbatim>\<open>q.parts\<close>, collecting the
  renderings of the children in order and stopping at the first exception. The container
  branch joins them and returns; every other node reaches \<^verbatim>\<open>q.parts.length\<close>, which raises
  a TypeError when \<^verbatim>\<open>parts\<close> is absent.
\<close>

fun toSQL :: "node \<Rightarrow> string \<Rightarrow> nat \<Rightarrow> error + string"
  and toSQL_parts :: "node list \<Rightarrow> string \<Rightarrow> nat \<Rightarrow> error + string list" where
  "toSQL (Node opr fld opd pts) variable level =
     (if truthy opr then
        (if truthy fld then
           (case toSQL_predicate (or_empty opr) (or_empty fld) opd variable of
              Inl e \<Rightarrow> Inl e
            | Inr s \<Rightarrow>
                (case pts of
                   None \<Rightarrow> Inl (TypeError ''Cannot read properties of undefined (reading 'length')'')
                 | Some ps \<Rightarrow>
                     (case toSQL_parts ps variable (level + 1) of
                        Inl e \<Rightarrow> Inl e
                      | Inr rs \<Rightarrow> Inr (s @ concat rs))))
         else
           (case getSqlOperator (or_empty opr) of
              Inl e \<Rightarrow> Inl e
            | Inr conjunctor \<Rightarrow>
                (case pts of
                   None \<Rightarrow> Inl (TypeError ''q.parts is not iterable'')
                 | Some ps \<Rightarrow>
                     (case toSQL_parts ps variable 0 of
                        Inl e \<Rightarrow> Inl e
                      | Inr coll \<Rightarrow> Inr (join ('' '' @ conjunctor @ '' '') coll)))))
      else
        (case pts of
           None \<Rightarrow> Inl (TypeError ''Cannot read properties of undefined (reading 'length')'')
         | Some ps \<Rightarrow>
             (case toSQL_parts ps variable (level + 1) of
                Inl e \<Rightarrow> Inl e
              | Inr rs \<Rightarrow> Inr (concat rs))))"
| "toSQL_parts [] variable level = Inr []"
| "toSQL_parts (p # ps) variable level =
     (case toSQL p variable level of
        Inl e \<Rightarrow> Inl e
      | Inr s \<Rightarrow>
          (case toSQL_parts ps variable level of
             Inl e \<Rightarrow> Inl e
           | Inr ss \<Rightarrow> Inr (s # ss)))"

section \<open>The raw filter object and the Sequelize translator (src/sequelize.ts)\<close>

text \<open>
  The raw filter (\<^verbatim>\<open>projector\<close>) is a JSON-like value. An object is the list of its own
  enumerable string-keyed properties in the order \<^verbatim>\<open>Object.keys\<close> enumerates them, so the
  keys of a \<open>PObject\<close> are meant to be distinct.
\<close>

datatype projector =
    PScalar scalar
  | PArray "projector list"
  | PObject "(string \<times> projector) list"

text \<open>
  The operator symbols of Sequelize (\<^verbatim>\<open>Op.eq\<close>, ...) that the translator uses; a property key
  of the result is a string or one of these symbols.
\<close>

datatype op_symbol =
  Op_eq | Op_lt | Op_lte | Op_gt | Op_gte | Op_in | Op_and | Op_or | Op_startsWith | Op_substring

datatype key = KString string | KSymbol op_symbol

text \<open>
  The values of the result. \<open>JsonArrayLengthWhere l v\<close> is the object
  \<^verbatim>\<open>Sequelize.where(Sequelize.fn("json_array_length", Sequelize.col("data"), Sequelize.literal(l)), v)\<close>.
  An \<open>SObject\<close> lists its properties in the order of their creation.
\<close>

datatype sqvalue =
    SScalar scalar
  | SArray "sqvalue list"
  | SObject "(key \<times> sqvalue) list"
  | JsonArrayLengthWhere string projector

definition getSequelizeOperator :: "string \<Rightarrow> error + key" where
  "getSequelizeOperator opr =
     (if opr = ''$eq'' then Inr (KSymbol Op_eq)
      else if opr = ''$lt'' then Inr (KSymbol Op_lt)
      else if opr = ''$lte'' then Inr (KSymbol Op_lte)
      else if opr = ''$gt'' then Inr (KSymbol Op_gt)
      else if opr = ''$gte'' then Inr (KSymbol Op_gte)
      else if opr = ''$in'' then Inr (KSymbol Op_in)
      else if opr = ''$and'' then Inr (KSymbol Op_and)
      else if opr = ''$or'' then Inr (KSymbol Op_or)
      else if opr = ''$startsWith'' then Inr (KSymbol Op_startsWith)
      else if opr = ''$contains'' then Inr (KSymbol Op_substring)
      else if opr = ''$size'' then Inl (Error ''Should have been handled separately already.'')
      else if opr \<in> set [''id'', ''labels''] then Inr (KString opr)
      else Inr (KString (''data.'' @ opr)))"

text \<open>The key computed by the \<^verbatim>\<open>default\<close> branch of \<^verbatim>\<open>getSequelizeOperator\<close>.\<close>

definition default_key :: "string \<Rightarrow> string" where
  "default_key opr = (if opr \<in> set [''id'', ''labels''] then opr else ''data.'' @ opr)"

text \<open>
  \<^verbatim>\<open>Object.keys(projector)\<close> together with \<^verbatim>\<open>projector[key]\<close>. The keys of an array and of
  a string are the indices \<^verbatim>\<open>"0"\<close>, \<^verbatim>\<open>"1"\<close>, ... and the value at an index of a string is
  the one-character string there; a number or a boolean has no own keys; \<^verbatim>\<open>null\<close> and
  \<^verbatim>\<open>undefined\<close> raise a TypeError.
\<close>

definition indexed :: "'a list \<Rightarrow> (string \<times> 'a) list" where
  "indexed xs = zip (map show_nat [0..<length xs]) xs"

definition own_entries :: "projector \<Rightarrow> error + (string \<times> projector) list" where
  "own_entries projector =
     (case projector of
        PObject kvs \<Rightarrow> Inr kvs
      | PArray xs \<Rightarrow> Inr (indexed xs)
      | PScalar (Str s) \<Rightarrow> Inr (indexed (map (\<lambda>c. PScalar (Str [c])) s))
      | PScalar Undefined \<Rightarrow> Inl (TypeError ''Cannot convert undefined or null to object'')
      | PScalar Null \<Rightarrow> Inl (TypeError ''Cannot convert undefined or null to object'')
      | PScalar _ \<Rightarrow> Inr [])"

text \<open>\<^verbatim>\<open>r[k] = v\<close>: an existing property is overwritten in place, a new one is added last.\<close>

fun obj_set :: "key \<Rightarrow> sqvalue \<Rightarrow> (key \<times> sqvalue) list \<Rightarrow> (key \<times> sqvalue) list" where
  "obj_set k v [] = [(k, v)]"
| "obj_set k v ((k', v') # r) = (if k' = k then (k, v) # r else (k', v') # obj_set k v r)"

text \<open>Weights for the termination of \<open>rewrite\<close>.\<close>

fun fweight :: "projector \<Rightarrow> nat" where
  "fweight (PScalar s) = (case s of Str cs \<Rightarrow> length cs | _ \<Rightarrow> 0)"
| "fweight (PArray xs) = 1 + sum_list (map (\<lambda>x. fweight x + 2) xs)"
| "fweight (PObject kvs) = 1 + sum_list (map (\<lambda>kv. fweight (snd kv) + 2) kvs)"

definition lweight :: "projector \<Rightarrow> nat" where
  "lweight v = (case v of PScalar s \<Rightarrow> 0 | _ \<Rightarrow> fweight v + 1)"

definition eweight :: "(string \<times> projector) list \<Rightarrow> nat" where
  "eweight es = sum_list (map (\<lambda>v. lweight v + 1) (map snd es))"

text \<open>
  \<^verbatim>\<open>rewrite(projector, specialCases)\<close>. The array \<^verbatim>\<open>specialCases\<close> is mutated by the source
  and is threaded through here: every function returns it updated. \<open>rewrite_entries\<close> is the
  loop \<^verbatim>\<open>for (const key of Object.keys(projector))\<close> with the object \<^verbatim>\<open>r\<close> built so far, and
  \<open>rewrite_array\<close> is \<^verbatim>\<open>value.map((u) => rewrite(u, specialCases))\<close>.
\<close>

function (sequential)
  rewrite :: "projector \<Rightarrow> sqvalue list \<Rightarrow> error + ((key \<times> sqvalue) list \<times> sqvalue list)"
  and rewrite_entries :: "(string \<times> projector) list \<Rightarrow> (key \<times> sqvalue) list \<Rightarrow> sqvalue list \<Rightarrow>
      error + ((key \<times> sqvalue) list \<times> sqvalue list)"
  and rewrite_array :: "projector list \<Rightarrow> sqvalue list \<Rightarrow> error + (sqvalue list \<times> sqvalue list)"
  where
  "rewrite projector specialCases =
     (case own_entries projector of
        Inl e \<Rightarrow> Inl e
      | Inr entries \<Rightarrow> rewrite_entries entries [] specialCases)"
| "rewrite_entries [] r specialCases = Inr (r, specialCases)"
| "rewrite_entries ((key, value) # rest) r specialCases =
     (case getSequelizeOperator key of
        Inl e \<Rightarrow> Inl e
      | Inr newKey \<Rightarrow>
          (case value of
             PObject kvs \<Rightarrow>
               (case map_of kvs ''$size'' of
                  Some n \<Rightarrow>
                    rewrite_entries rest r
                      (specialCases @
                       [JsonArrayLengthWhere ([CHR 0x22] @ ''$.'' @ key @ [CHR 0x22]) n])
                | None \<Rightarrow>
                    (case rewrite value specialCases of
                       Inl e \<Rightarrow> Inl e
                     | Inr (r', specialCases') \<Rightarrow>
                         rewrite_entries rest (obj_set newKey (SObject r') r) specialCases'))
           | PArray us \<Rightarrow>
               (case rewrite_array us specialCases of
                  Inl e \<Rightarrow> Inl e
                | Inr (rs, specialCases') \<Rightarrow>
                    rewrite_entries rest (obj_set newKey (SArray rs) r) specialCases')
           | PScalar s \<Rightarrow> rewrite_entries rest (obj_set newKey (SScalar s) r) specialCases))"
| "rewrite_array [] specialCases = Inr ([], specialCases)"
| "rewrite_array (u # us) specialCases =
     (case rewrite u specialCases of
        Inl e \<Rightarrow> Inl e
      | Inr (r, specialCases') \<Rightarrow>
          (case rewrite_array us specialCases' of
             Inl e \<Rightarrow> Inl e
           | Inr (rs, specialCases'') \<Rightarrow> Inr (SObject r # rs, specialCases'')))"
  by pat_completeness auto

termination
proof (relation "measure (\<lambda>x. case x of
            Inl (p, sc) \<Rightarrow> fweight p + 1
          | Inr (Inl (es, r, sc)) \<Rightarrow> eweight es
          | Inr (Inr (us, sc)) \<Rightarrow> sum_list (map (\<lambda>u. fweight u + 2) us))", goal_cases)
  case 1
  show ?case by simp
next
  case (2 projector specialCases entries)
  have snd_indexed: "map snd (indexed xs) = xs" for xs :: "projector list"
    by (simp add: indexed_def)
  have ew_indexed: "eweight (indexed xs) = sum_list (map (\<lambda>v. lweight v + 1) xs)" for xs
    by (simp only: eweight_def snd_indexed)
  have lw: "lweight v \<le> fweight v + 1" for v
    by (cases v) (simp_all add: lweight_def)
  have sum_lw: "sum_list (map (\<lambda>v. lweight v + 1) vs) \<le> sum_list (map (\<lambda>v. fweight v + 2) vs)"
    for vs
  proof (induction vs)
    case Nil
    show ?case by simp
  next
    case (Cons v vs)
    then show ?case using lw [of v] by simp
  qed
  have ew_chars: "eweight (indexed (map (\<lambda>c. PScalar (Str [c])) s)) = length s" for s
    by (induction s) (simp_all add: ew_indexed lweight_def comp_def)
  have "eweight entries < fweight projector + 1"
  proof (cases projector)
    case (PScalar x)
    show ?thesis
    proof (cases x)
      case (Str cs)
      then show ?thesis
        using 2 PScalar ew_chars [of cs] by (auto simp add: own_entries_def)
    qed (use 2 PScalar in \<open>auto simp add: own_entries_def eweight_def\<close>)
  next
    case (PArray xs)
    then have "entries = indexed xs"
      using 2 by (simp add: own_entries_def)
    then show ?thesis
      using PArray sum_lw [of xs] by (simp add: ew_indexed)
  next
    case (PObject kvs)
    then show ?thesis
      using 2 sum_lw [of "map snd kvs"] by (simp add: own_entries_def eweight_def comp_def)
  qed
  then show ?case by simp
next
  case 3
  then show ?case by (simp add: eweight_def)
next
  case 4
  then show ?case by (simp add: eweight_def lweight_def)
next
  case 5
  then show ?case by (simp add: eweight_def)
next
  case 6
  then show ?case by (simp add: eweight_def lweight_def)
next
  case 7
  then show ?case by (simp add: eweight_def)
next
  case 8
  then show ?case by (simp add: eweight_def)
next
  case 9
  then show ?case by simp
next
  case 10
  then show ?case by simp
qed

text \<open>
  \<^verbatim>\<open>_.keys(p)\<close> (the string keys) and \<^verbatim>\<open>Object.getOwnPropertySymbols(p)\<close> of a result
  object.
\<close>

definition lodash_keys :: "(key \<times> sqvalue) list \<Rightarrow> string list" where
  "lodash_keys p = concat (map (\<lambda>(k, v). case k of KString s \<Rightarrow> [s] | KSymbol _ \<Rightarrow> []) p)"

definition getOwnPropertySymbols :: "(key \<times> sqvalue) list \<Rightarrow> op_symbol list" where
  "getOwnPropertySymbols p =
     concat (map (\<lambda>(k, v). case k of KString _ \<Rightarrow> [] | KSymbol s \<Rightarrow> [s]) p)"

text \<open>
  \<^verbatim>\<open>toSequelize(projector)\<close>. \<^verbatim>\<open>rewrite\<close> always returns an object, so \<^verbatim>\<open>_.isNil(p)\<close> is
  false in both tests.
\<close>

definition toSequelize :: "projector \<Rightarrow> error + sqvalue" where
  "toSequelize projector =
     (case rewrite projector [] of
        Inl e \<Rightarrow> Inl e
      | Inr (p, specialCases) \<Rightarrow>
          (if length specialCases = 0 then
             (if length (lodash_keys p) = 0 \<and> length (getOwnPropertySymbols p) = 0
              then Inr (SObject [])
              else Inr (SObject [(KString ''where'', SObject p)]))
           else
             (if length (lodash_keys p) = 0
              then Inr (SObject [(KString ''where'', SArray specialCases)])
              else Inr (SObject [(KString ''where'', SArray (specialCases @ [SObject p]))]))))"

text \<open>
  The object that \<^verbatim>\<open>rewrite\<close> returns for a filter (it does not depend on the special cases
  collected before), and the filters on which \<^verbatim>\<open>rewrite\<close> meets no exception: no key
  \<^verbatim>\<open>$size\<close> reaches the key rewrite, and \<^verbatim>\<open>rewrite\<close> is not applied to \<^verbatim>\<open>null\<close> or
  \<^verbatim>\<open>undefined\<close>. \<open>throw_free\<close> is for a value passed to \<^verbatim>\<open>rewrite\<close>, \<open>throw_free_value\<close>
  for the value of an entry (an object with a key \<^verbatim>\<open>$size\<close> is diverted, not rewritten).
\<close>

definition rewritten :: "projector \<Rightarrow> (key \<times> sqvalue) list" where
  "rewritten p = (case rewrite p [] of Inl e \<Rightarrow> [] | Inr (r, specialCases) \<Rightarrow> r)"

fun throw_free :: "projector \<Rightarrow> bool" and throw_free_value :: "projector \<Rightarrow> bool" where
  "throw_free (PScalar s) = (s \<noteq> Undefined \<and> s \<noteq> Null)"
| "throw_free (PArray us) = (\<forall>u \<in> set us. throw_free_value u)"
| "throw_free (PObject kvs) =
     (''$size'' \<notin> fst ` set kvs \<and> (\<forall>kv \<in> set kvs. throw_free_value (snd kv)))"
| "throw_free_value (PScalar s) = True"
| "throw_free_value (PArray us) = (\<forall>u \<in> set us. throw_free u)"
| "throw_free_value (PObject kvs) =
     (''$size'' \<in> fst ` set kvs \<or> (\<forall>kv \<in> set kvs. throw_free_value (snd kv)))"

section \<open>Number strings\<close>

text \<open>
  The strings of some numbers: an integer, a fraction, \<^verbatim>\<open>1e21\<close> (the first integer printed
  in exponential notation), \<^verbatim>\<open>1e-7\<close>, minus zero and \<^verbatim>\<open>2**64\<close>.
\<close>

lemma number_to_string_examples:
  "number_to_string (int_number 12) = ''12''"
  "number_to_string (Decimal False 12 2) = ''12''"
  "number_to_string (Decimal True 15 1) = ''-1.5''"
  "number_to_string (Decimal False 1 22) = ''1e+21''"
  "number_to_string (Decimal False 1 (- 6)) = ''1e-7''"
  "number_to_string (Decimal True 0 1) = ''0''"
  by code_simp+

lemma number_to_string_two_to_64:
  "number_to_string (Decimal False 18446744073709552 20) = ''18446744073709552000''"
proof -
  have r: "replicate 3 CHR ''0'' = ''000''" by code_simp
  show ?thesis
    by (simp add: show_nat.simps digit_char_def decimal_string_def strip_zeros_def r)
qed

section \<open>Properties of the string renderer\<close>

text \<open>
  The \<^verbatim>\<open>level\<close> argument is only passed on, never read: the rendering does not depend
  on it.
\<close>

lemma toSQL_parts_cong_level:
  "(\<And>p l1 l2. p \<in> set ps \<Longrightarrow> toSQL p variable l1 = toSQL p variable l2) \<Longrightarrow>
   toSQL_parts ps variable level = toSQL_parts ps variable level'"
proof (induction ps)
  case Nil
  show ?case by simp
next
  case (Cons p ps)
  have "toSQL p variable level = toSQL p variable level'"
    by (rule Cons.prems) simp
  moreover have "toSQL_parts ps variable level = toSQL_parts ps variable level'"
    by (rule Cons.IH) (simp add: Cons.prems)
  ultimately show ?case by (simp split: sum.splits)
qed

lemma toSQL_level: "toSQL q variable level = toSQL q variable level'"
proof (induction q arbitrary: level level')
  case (Node opr fld opd pts)
  have h: "toSQL_parts ps variable (Suc l) = toSQL_parts ps variable 0" if "pts = Some ps" for ps l
    by (rule toSQL_parts_cong_level) (use that Node.IH in auto)
  show ?case by (simp add: h split: sum.splits option.splits)
qed

lemma toSQL_parts_level: "toSQL_parts ps variable level = toSQL_parts ps variable level'"
  by (rule toSQL_parts_cong_level) (rule toSQL_level)

text \<open>The loop over the parts succeeds exactly when every child renders, in order.\<close>

lemma toSQL_parts_map:
  "toSQL_parts ps variable level = Inr rs \<longleftrightarrow> map (\<lambda>p. toSQL p variable level) ps = map Inr rs"
proof (induction ps arbitrary: rs)
  case Nil
  show ?case by auto
next
  case (Cons p ps)
  show ?case
  proof (cases rs)
    case Nil
    then show ?thesis by (auto split: sum.splits)
  next
    case (Cons r rs')
    then show ?thesis using Cons.IH [of rs'] by (auto split: sum.splits)
  qed
qed

text \<open>
  A predicate node that carries parts renders as its own string followed by the renderings of
  the parts.
\<close>

lemma toSQL_predicate_node:
  assumes "truthy opr" and "truthy fld"
    and "toSQL_predicate (or_empty opr) (or_empty fld) opd variable = Inr s"
    and "map (\<lambda>p. toSQL p variable 0) ps = map Inr rs"
  shows "toSQL (Node opr fld opd (Some ps)) variable level = Inr (s @ concat rs)"
proof -
  have "toSQL_parts ps variable 0 = Inr rs"
    using assms(4) by (simp add: toSQL_parts_map)
  then have "toSQL_parts ps variable (level + 1) = Inr rs"
    using toSQL_parts_level [of ps variable "level + 1" 0] by simp
  then show ?thesis
    using assms(1,2,3) by simp
qed

lemma getSqlOperator_unrecognized:
  "opr \<notin> {''$eq'', ''$lt'', ''$lte'', ''$gt'', ''$gte'', ''$in'', ''$and'', ''$or''} \<Longrightarrow>
   getSqlOperator opr = Inl (Error (''Unrecognized operator '' @ quoted opr @ ''.''))"
  by (simp add: getSqlOperator_def)

text \<open>
  Claim C4, as amended. For every predicate node with a non-empty field, an operator among
  \<^verbatim>\<open>$eq\<close>, \<^verbatim>\<open>$lt\<close>, \<^verbatim>\<open>$lte\<close>, \<^verbatim>\<open>$gt\<close>, \<^verbatim>\<open>$gte\<close>, a string, number or boolean operand,
  and an empty \<^verbatim>\<open>parts\<close> array, \<^verbatim>\<open>toSQL(node, variable)\<close> returns
  \<^verbatim>\<open>(<variable>.<field> <symbol> <operand>)\<close> with the symbol \<^verbatim>\<open>=\<close>, \<^verbatim>\<open><\<close>, \<^verbatim>\<open><=\<close>,
  \<^verbatim>\<open>>\<close>, \<^verbatim>\<open>>=\<close> respectively, the operand single-quoted when a string and a bare literal
  when a number (printed as JavaScript prints it, \<open>number_to_string\<close>) or a boolean.
\<close>

theorem toSQL_comparison_empty_parts:
  assumes "fld \<noteq> []"
    and "(opr, symbol) \<in> {(''$eq'', ''=''), (''$lt'', ''<''), (''$lte'', ''<=''),
                           (''$gt'', ''>''), (''$gte'', ''>='')}"
  shows "toSQL (Node (Some opr) (Some fld) (Scalar (Str s)) (Some [])) variable level =
           Inr (''('' @ variable @ ''.'' @ fld @ '' '' @ symbol @ '' '' @ quoted s @ '')'')
       \<and> toSQL (Node (Some opr) (Some fld) (Scalar (Num n)) (Some [])) variable level =
           Inr (''('' @ variable @ ''.'' @ fld @ '' '' @ symbol @ '' '' @ number_to_string n @ '')'')
       \<and> toSQL (Node (Some opr) (Some fld) (Scalar (Bool b)) (Some [])) variable level =
           Inr (''('' @ variable @ ''.'' @ fld @ '' '' @ symbol @ '' '' @
                (if b then ''true'' else ''false'') @ '')'')"
  using assms
  by (auto simp add: truthy_def or_empty_def toSQL_predicate_def getSqlOperator_def template_def)

text \<open>
  The renderings of \<^verbatim>\<open>{x: {$lt: 12}}\<close>, \<^verbatim>\<open>{x: {$gte: 12}}\<close> and \<^verbatim>\<open>{x: 'R'}\<close> (variable
  \<^verbatim>\<open>u\<close>).
\<close>

theorem toSQL_comparison_empty_parts_witness:
  "toSQL (Node (Some ''$lt'') (Some ''x'') (Scalar (Num (int_number 12))) (Some [])) ''n'' 0 = Inr ''(n.x < 12)''
 \<and> toSQL (Node (Some ''$gte'') (Some ''x'') (Scalar (Num (int_number 12))) (Some [])) ''n'' 0 = Inr ''(n.x >= 12)''
 \<and> toSQL (Node (Some ''$eq'') (Some ''x'') (Scalar (Str ''R'')) (Some [])) ''u'' 0 = Inr ''(u.x = 'R')''"
proof -
  have n: "number_to_string (int_number 12) = ''12''" by code_simp
  show ?thesis
    using toSQL_comparison_empty_parts [of "''x''" "''$lt''" "''<''" "''''" "''n''" 0 "int_number 12" True]
      toSQL_comparison_empty_parts [of "''x''" "''$gte''" "''>=''" "''''" "''n''" 0 "int_number 12" True]
      toSQL_comparison_empty_parts [of "''x''" "''$eq''" "''=''" "''R''" "''u''" 0 NaN True]
    by (simp add: n quoted_def)
qed

text \<open>
  Claim C4 as stated, for every predicate node, fails on the node
  \<^verbatim>\<open>{operator: '$lt', field: 'x', operand: 12}\<close> that has no \<^verbatim>\<open>parts\<close>: the call raises a
  TypeError and returns no string.
\<close>

theorem toSQL_comparison_parts_absent:
  "toSQL (Node (Some ''$lt'') (Some ''x'') (Scalar (Num (int_number 12))) None) ''n'' 0 =
     Inl (TypeError ''Cannot read properties of undefined (reading 'length')'')"
  by (simp add: truthy_def or_empty_def toSQL_predicate_def getSqlOperator_def)


text \<open>
  Claim C2, as amended. For every predicate node with a non-empty field, a scalar operand and
  an empty \<^verbatim>\<open>parts\<close> array, \<^verbatim>\<open>toSQL\<close> returns: for \<^verbatim>\<open>$size\<close> the form
  \<^verbatim>\<open>(length(<variable>.<field>) = <operand>)\<close>, the operand formatted by \<^verbatim>\<open>getOperand\<close> (a
  number as JavaScript prints it); for \<^verbatim>\<open>$startsWith\<close> the form \<^verbatim>\<open>(<variable>.<field> like '<operand>%')\<close>; for
  \<^verbatim>\<open>$contains\<close> the form \<^verbatim>\<open>(<variable>.<field> like '%<operand>%')\<close>; for \<^verbatim>\<open>$regex\<close> the
  form \<^verbatim>\<open>(<variable>.<field> regexp '<operand>')\<close>, the operand there interpolated as its
  string conversion.
\<close>

theorem toSQL_special_empty_parts:
  assumes "fld \<noteq> []"
  shows "toSQL (Node (Some ''$size'') (Some fld) (Scalar x) (Some [])) variable level =
           Inr (''(length('' @ variable @ ''.'' @ fld @ '') = '' @
                template (getOperand (Scalar x)) @ '')'')
       \<and> toSQL (Node (Some ''$size'') (Some fld) (Scalar (Num n)) (Some [])) variable level =
           Inr (''(length('' @ variable @ ''.'' @ fld @ '') = '' @ number_to_string n @ '')'')
       \<and> toSQL (Node (Some ''$startsWith'') (Some fld) (Scalar x) (Some [])) variable level =
           Inr (''('' @ variable @ ''.'' @ fld @ '' like '' @ quoted (to_string x @ ''%'') @ '')'')
       \<and> toSQL (Node (Some ''$contains'') (Some fld) (Scalar x) (Some [])) variable level =
           Inr (''('' @ variable @ ''.'' @ fld @ '' like '' @
                quoted (''%'' @ to_string x @ ''%'') @ '')'')
       \<and> toSQL (Node (Some ''$regex'') (Some fld) (Scalar x) (Some [])) variable level =
           Inr (''('' @ variable @ ''.'' @ fld @ '' regexp '' @ quoted (to_string x) @ '')'')"
  using assms
  by (simp add: truthy_def or_empty_def toSQL_predicate_def template_def)

text \<open>
  The renderings of \<^verbatim>\<open>{v: {$size: 13}}\<close> (variable \<^verbatim>\<open>u\<close>), \<^verbatim>\<open>{s: {$startsWith: 'f'}}\<close>,
  \<^verbatim>\<open>{s: {$contains: 'aa'}}\<close> and \<^verbatim>\<open>{s: {$regex: 'a.b'}}\<close> (variable \<^verbatim>\<open>w\<close>).
\<close>

theorem toSQL_special_empty_parts_witness:
  "toSQL (Node (Some ''$size'') (Some ''v'') (Scalar (Num (int_number 13))) (Some [])) ''u'' 0 =
     Inr ''(length(u.v) = 13)''
 \<and> toSQL (Node (Some ''$startsWith'') (Some ''s'') (Scalar (Str ''f'')) (Some [])) ''w'' 0 =
     Inr ''(w.s like 'f%')''
 \<and> toSQL (Node (Some ''$contains'') (Some ''s'') (Scalar (Str ''aa'')) (Some [])) ''w'' 0 =
     Inr ''(w.s like '%aa%')''
 \<and> toSQL (Node (Some ''$regex'') (Some ''s'') (Scalar (Str ''a.b'')) (Some [])) ''w'' 0 =
     Inr ''(w.s regexp 'a.b')''"
proof -
  have n: "number_to_string (int_number 13) = ''13''" by code_simp
  show ?thesis
    using toSQL_special_empty_parts [of "''v''" "Num (int_number 13)" "''u''" 0 "int_number 13"]
      toSQL_special_empty_parts [of "''s''" "Str ''f''" "''w''" 0 NaN]
      toSQL_special_empty_parts [of "''s''" "Str ''aa''" "''w''" 0 NaN]
      toSQL_special_empty_parts [of "''s''" "Str ''a.b''" "''w''" 0 NaN]
    by (simp add: n quoted_def template_def)
qed

text \<open>
  Claim C2 as stated, for every predicate node, fails on the node
  \<^verbatim>\<open>{operator: '$size', field: 'v', operand: 13}\<close> that has no \<^verbatim>\<open>parts\<close>.
\<close>

theorem toSQL_size_parts_absent:
  "toSQL (Node (Some ''$size'') (Some ''v'') (Scalar (Num (int_number 13))) None) ''u'' 0 =
     Inl (TypeError ''Cannot read properties of undefined (reading 'length')'')"
  by (simp add: truthy_def or_empty_def toSQL_predicate_def)

text \<open>
  Claim C5, as amended. For every predicate node with a non-empty field, an array operand and
  an empty \<^verbatim>\<open>parts\<close> array: with \<^verbatim>\<open>$all\<close>, \<^verbatim>\<open>toSQL\<close> returns
  \<^verbatim>\<open>(<renderedOperand> in <variable>.<field>)\<close>; with \<^verbatim>\<open>$in\<close>, it returns
  \<^verbatim>\<open>(<variable>.<field> in (<renderedOperand>))\<close>. The rendered operand is \<^verbatim>\<open>[]\<close> for the
  empty array and otherwise the elements, each formatted by \<^verbatim>\<open>getOperand\<close> (a string
  single-quoted, a number bare, as JavaScript prints it), joined with a comma and a space.
\<close>

theorem toSQL_array_empty_parts:
  assumes "fld \<noteq> []"
  shows "toSQL (Node (Some ''$all'') (Some fld) (Array xs) (Some [])) variable level =
           Inr (''('' @
                (if xs = [] then ''[]''
                 else join '', '' (map (\<lambda>u. join_element (getOperand u)) xs)) @
                '' in '' @ variable @ ''.'' @ fld @ '')'')
       \<and> toSQL (Node (Some ''$in'') (Some fld) (Array xs) (Some [])) variable level =
           Inr (''('' @ variable @ ''.'' @ fld @ '' in ('' @
                (if xs = [] then ''[]''
                 else join '', '' (map (\<lambda>u. join_element (getOperand u)) xs)) @
                ''))'')
       \<and> getOperand (Scalar (Str s)) = Some (quoted s)
       \<and> getOperand (Scalar (Num n)) = Some (number_to_string n)"
  using assms
  by (simp add: truthy_def or_empty_def toSQL_predicate_def template_def getSqlOperator_def)

text \<open>
  The renderings of \<^verbatim>\<open>{labels: {$all: ['A']}}\<close>, \<^verbatim>\<open>{x: {$in: ['a', 'b']}}\<close>,
  \<^verbatim>\<open>{x: {$in: [1, 2]}}\<close> and \<^verbatim>\<open>{x: {$in: []}}\<close>.
\<close>

theorem toSQL_array_empty_parts_witness:
  "toSQL (Node (Some ''$all'') (Some ''labels'') (Array [Scalar (Str ''A'')]) (Some [])) ''n'' 0 =
     Inr ''('A' in n.labels)''
 \<and> toSQL (Node (Some ''$in'') (Some ''x'')
       (Array [Scalar (Str ''a''), Scalar (Str ''b'')]) (Some [])) ''n'' 0 =
     Inr ''(n.x in ('a', 'b'))''
 \<and> toSQL (Node (Some ''$in'') (Some ''x'')
       (Array [Scalar (Num (int_number 1)), Scalar (Num (int_number 2))]) (Some [])) ''n'' 0 =
     Inr ''(n.x in (1, 2))''
 \<and> toSQL (Node (Some ''$in'') (Some ''x'') (Array []) (Some [])) ''n'' 0 =
     Inr ''(n.x in ([]))''"
proof -
  have n: "number_to_string (int_number 1) = ''1''" "number_to_string (int_number 2) = ''2''" by code_simp+
  show ?thesis
    using toSQL_array_empty_parts [of "''labels''" "[Scalar (Str ''A'')]" "''n''" 0 "''''" NaN]
      toSQL_array_empty_parts [of "''x''" "[Scalar (Str ''a''), Scalar (Str ''b'')]" "''n''" 0 "''''" NaN]
      toSQL_array_empty_parts [of "''x''" "[Scalar (Num (int_number 1)), Scalar (Num (int_number 2))]" "''n''" 0 "''''" NaN]
      toSQL_array_empty_parts [of "''x''" "[]" "''n''" 0 "''''" NaN]
    by (simp add: n quoted_def join_element_def)
qed

text \<open>
  Claim C5 as stated, for every predicate node, fails on the node
  \<^verbatim>\<open>{operator: '$all', field: 'labels', operand: ['A']}\<close> that has no \<^verbatim>\<open>parts\<close>.
\<close>

theorem toSQL_all_parts_absent:
  "toSQL (Node (Some ''$all'') (Some ''labels'') (Array [Scalar (Str ''A'')]) None) ''n'' 0 =
     Inl (TypeError ''Cannot read properties of undefined (reading 'length')'')"
  by (simp add: truthy_def or_empty_def toSQL_predicate_def)

text \<open>
  Claim C6. For every container node (field absent or empty) whose children in \<^verbatim>\<open>parts\<close>
  render to the strings \<open>rs\<close>: with the operator \<^verbatim>\<open>$and\<close> or \<^verbatim>\<open>$or\<close>, \<^verbatim>\<open>toSQL\<close> returns
  these renderings joined with \<^verbatim>\<open>" and "\<close> or \<^verbatim>\<open>" or "\<close>, once (the trailing loop does
  not add them a second time); with no operator, it returns their concatenation with no
  separator.
\<close>

theorem toSQL_container:
  assumes "\<not> truthy fld"
    and "map (\<lambda>p. toSQL p variable 0) ps = map Inr rs"
  shows "toSQL (Node (Some ''$and'') fld opd (Some ps)) variable level = Inr (join '' and '' rs)
       \<and> toSQL (Node (Some ''$or'') fld opd (Some ps)) variable level = Inr (join '' or '' rs)
       \<and> (\<not> truthy opr \<longrightarrow>
            toSQL (Node opr fld opd (Some ps)) variable level = Inr (concat rs))"
proof -
  have a: "toSQL_parts ps variable 0 = Inr rs"
    using assms(2) by (simp add: toSQL_parts_map)
  have b: "toSQL_parts ps variable (level + 1) = Inr rs"
    using a toSQL_parts_level [of ps variable "level + 1" 0] by simp
  show ?thesis
    using assms(1) a b by (simp add: truthy_def or_empty_def getSqlOperator_def)
qed

text \<open>
  The rendering of \<^verbatim>\<open>{$or: [{x: 'R'}, {x: 'S'}]}\<close> with variable \<^verbatim>\<open>u\<close>, and of the same
  children under a container with no operator.
\<close>

theorem toSQL_container_witness:
  "toSQL (Node (Some ''$or'') None (Scalar Undefined)
       (Some [Node (Some ''$eq'') (Some ''x'') (Scalar (Str ''R'')) (Some []),
              Node (Some ''$eq'') (Some ''x'') (Scalar (Str ''S'')) (Some [])])) ''u'' 0 =
     Inr ''(u.x = 'R') or (u.x = 'S')''
 \<and> toSQL (Node None None (Scalar Undefined)
       (Some [Node (Some ''$eq'') (Some ''x'') (Scalar (Str ''R'')) (Some []),
              Node (Some ''$eq'') (Some ''x'') (Scalar (Str ''S'')) (Some [])])) ''u'' 0 =
     Inr ''(u.x = 'R')(u.x = 'S')''"
proof -
  have c: "map (\<lambda>p. toSQL p ''u'' 0)
             [Node (Some ''$eq'') (Some ''x'') (Scalar (Str ''R'')) (Some []),
              Node (Some ''$eq'') (Some ''x'') (Scalar (Str ''S'')) (Some [])] =
           map Inr [''(u.x = 'R')'', ''(u.x = 'S')'']"
    by (simp add: truthy_def or_empty_def toSQL_predicate_def getSqlOperator_def template_def
        quoted_def)
  have t: "\<not> truthy None" by (simp add: truthy_def)
  show ?thesis
    using toSQL_container [OF t c, of "Scalar Undefined" 0 None] by (simp add: truthy_def)
qed

text \<open>
  Claim C8. For every predicate node (operator and field non-empty) whose operator is outside
  the symbol table of \<^verbatim>\<open>getSqlOperator\<close> and is not handled by a special branch (\<^verbatim>\<open>$all\<close>
  with an array operand; \<^verbatim>\<open>$size\<close>, \<^verbatim>\<open>$startsWith\<close>, \<^verbatim>\<open>$contains\<close>, \<^verbatim>\<open>$regex\<close> with a
  scalar operand), so in particular for every operator that is none of the thirteen keywords,
  \<^verbatim>\<open>toSQL\<close> fails with the error \<^verbatim>\<open>Unrecognized operator '<keyword>'.\<close>, whatever the parts
  are, and returns no string.
\<close>

theorem toSQL_unrecognized_operator:
  assumes "opr \<noteq> []" and "fld \<noteq> []"
    and "opr \<notin> {''$eq'', ''$lt'', ''$lte'', ''$gt'', ''$gte'', ''$in'', ''$and'', ''$or''}"
    and "case opd of
           Array xs \<Rightarrow> opr \<noteq> ''$all''
         | Scalar x \<Rightarrow> opr \<notin> {''$size'', ''$startsWith'', ''$contains'', ''$regex''}"
  shows "toSQL (Node (Some opr) (Some fld) opd pts) variable level =
           Inl (Error (''Unrecognized operator '' @ quoted opr @ ''.''))"
proof -
  have "getSqlOperator opr = Inl (Error (''Unrecognized operator '' @ quoted opr @ ''.''))"
    using assms(3) by (rule getSqlOperator_unrecognized)
  then have "toSQL_predicate opr fld opd variable =
               Inl (Error (''Unrecognized operator '' @ quoted opr @ ''.''))"
    using assms(4) by (cases opd) (simp_all add: toSQL_predicate_def)
  then show ?thesis
    using assms(1,2) by (simp add: truthy_def or_empty_def)
qed

text \<open>
  The misspelt operator \<^verbatim>\<open>$eqq\<close>, and \<^verbatim>\<open>$size\<close> with an array operand, which no branch
  handles.
\<close>

theorem toSQL_unrecognized_operator_witness:
  "toSQL (Node (Some ''$eqq'') (Some ''x'') (Scalar (Num (int_number 12))) (Some [])) ''n'' 0 =
     Inl (Error ''Unrecognized operator '$eqq'.'')
 \<and> toSQL (Node (Some ''$size'') (Some ''x'') (Array [Scalar (Num (int_number 1))]) (Some [])) ''n'' 0 =
     Inl (Error ''Unrecognized operator '$size'.'')"
  using toSQL_unrecognized_operator [of "''$eqq''" "''x''" "Scalar (Num (int_number 12))" "Some []" "''n''" 0]
    toSQL_unrecognized_operator [of "''$size''" "''x''" "Array [Scalar (Num (int_number 1))]" "Some []" "''n''" 0]
  by (simp add: quoted_def)

text \<open>
  Claim C10. A node that has no \<^verbatim>\<open>parts\<close> never renders: \<^verbatim>\<open>toSQL\<close> fails on it. For a
  predicate node whose own string \<open>s\<close> has been built, and for a node with no operator, the
  failure is the TypeError of reading \<^verbatim>\<open>q.parts.length\<close>; the string \<open>s\<close> is not returned.
\<close>

theorem toSQL_parts_absent:
  "(\<exists>e. toSQL (Node opr fld opd None) variable level = Inl e)
 \<and> (truthy opr \<and> truthy fld \<and>
      toSQL_predicate (or_empty opr) (or_empty fld) opd variable = Inr s \<longrightarrow>
      toSQL (Node opr fld opd None) variable level =
        Inl (TypeError ''Cannot read properties of undefined (reading 'length')''))
 \<and> (\<not> truthy opr \<longrightarrow>
      toSQL (Node opr fld opd None) variable level =
        Inl (TypeError ''Cannot read properties of undefined (reading 'length')''))"
  by (simp split: sum.splits)

text \<open>
  The predicate node \<^verbatim>\<open>{operator: '$gt', field: 'x', operand: 8}\<close> and the empty node
  \<^verbatim>\<open>{}\<close>.
\<close>

theorem toSQL_parts_absent_witness:
  "toSQL_predicate ''$gt'' ''x'' (Scalar (Num (int_number 8))) ''n'' = Inr ''(n.x > 8)''
 \<and> toSQL (Node (Some ''$gt'') (Some ''x'') (Scalar (Num (int_number 8))) None) ''n'' 0 =
     Inl (TypeError ''Cannot read properties of undefined (reading 'length')'')
 \<and> toSQL (Node None None (Scalar Undefined) None) ''n'' 0 =
     Inl (TypeError ''Cannot read properties of undefined (reading 'length')'')"
proof -
  have n: "number_to_string (int_number 8) = ''8''" by code_simp
  have p: "toSQL_predicate ''$gt'' ''x'' (Scalar (Num (int_number 8))) ''n'' = Inr ''(n.x > 8)''"
    by (simp add: toSQL_predicate_def getSqlOperator_def template_def n)
  show ?thesis
    using p toSQL_parts_absent [of "Some ''$gt''" "Some ''x''" "Scalar (Num (int_number 8))" "''n''" 0 "''(n.x > 8)''"]
      toSQL_parts_absent [of None None "Scalar Undefined" "''n''" 0 "''''"]
    by (simp add: truthy_def or_empty_def)
qed

section \<open>Properties of the Sequelize translator\<close>

text \<open>
  A key outside the cases of the \<^verbatim>\<open>switch\<close> is rewritten by the \<^verbatim>\<open>default\<close> branch, without
  an error, and distinct keys stay distinct.
\<close>

lemma getSequelizeOperator_default:
  assumes "k \<notin> {''$eq'', ''$lt'', ''$lte'', ''$gt'', ''$gte'', ''$in'', ''$and'', ''$or'',
               ''$startsWith'', ''$contains'', ''$size''}"
  shows "getSequelizeOperator k = Inr (KString (default_key k))"
  using assms by (simp add: getSequelizeOperator_def default_key_def)

lemma default_key_inject: "default_key k = default_key k' \<Longrightarrow> k = k'"
  by (auto simp add: default_key_def split: if_splits)

text \<open>Assigning a property that the object does not have yet adds it last.\<close>

lemma obj_set_fresh: "k \<notin> fst ` set r \<Longrightarrow> obj_set k v r = r @ [(k, v)]"
  by (induction r) auto

text \<open>
  The loop of \<^verbatim>\<open>rewrite\<close> over entries with unrecognized, distinct keys and scalar values
  adds one rewritten entry per key, in order, and collects no special case.
\<close>

lemma rewrite_entries_scalars:
  assumes "distinct (map fst kvs)"
    and "\<forall>k \<in> fst ` set kvs.
           k \<notin> {''$eq'', ''$lt'', ''$lte'', ''$gt'', ''$gte'', ''$in'', ''$and'', ''$or'',
                 ''$startsWith'', ''$contains'', ''$size''}"
    and "\<forall>k \<in> fst ` set kvs. KString (default_key k) \<notin> fst ` set r"
  shows "rewrite_entries (map (\<lambda>(k, s). (k, PScalar s)) kvs) r specialCases =
           Inr (r @ map (\<lambda>(k, s). (KString (default_key k), SScalar s)) kvs, specialCases)"
  using assms
proof (induction kvs arbitrary: r)
  case Nil
  show ?case by simp
next
  case (Cons kv kvs)
  obtain k s where kv: "kv = (k, s)" by (cases kv)
  let ?nk = "KString (default_key k)"
  have op: "getSequelizeOperator k = Inr ?nk"
    using Cons.prems(2) kv by (intro getSequelizeOperator_default) simp
  have fresh: "?nk \<notin> fst ` set r"
    using Cons.prems(3) kv by simp
  have step: "rewrite_entries (map (\<lambda>(k, s). (k, PScalar s)) (kv # kvs)) r specialCases =
              rewrite_entries (map (\<lambda>(k, s). (k, PScalar s)) kvs) (r @ [(?nk, SScalar s)])
                specialCases"
    using op kv by (simp add: obj_set_fresh [OF fresh])
  have d: "distinct (map fst kvs)" using Cons.prems(1) by simp
  have kw: "\<forall>k \<in> fst ` set kvs.
           k \<notin> {''$eq'', ''$lt'', ''$lte'', ''$gt'', ''$gte'', ''$in'', ''$and'', ''$or'',
                 ''$startsWith'', ''$contains'', ''$size''}"
    using Cons.prems(2) by simp
  have fr: "\<forall>k' \<in> fst ` set kvs.
           KString (default_key k') \<notin> fst ` set (r @ [(?nk, SScalar s)])"
  proof
    fix k' assume k': "k' \<in> fst ` set kvs"
    then have "k' \<noteq> k" using Cons.prems(1) kv by auto
    then have "default_key k' \<noteq> default_key k"
      using default_key_inject [of k' k] by blast
    moreover have "KString (default_key k') \<notin> fst ` set r"
      using Cons.prems(3) k' by auto
    ultimately show "KString (default_key k') \<notin> fst ` set (r @ [(?nk, SScalar s)])"
      by simp
  qed
  show ?case
    unfolding step using Cons.IH [OF d kw fr] kv by simp
qed

lemma lodash_keys_strings:
  "lodash_keys (map (\<lambda>(k, s). (KString (g k), SScalar s)) kvs) = map (\<lambda>(k, s). g k) kvs"
  by (induction kvs) (auto simp add: lodash_keys_def)

lemma toSequelize_scalar_entries:
  assumes "kvs \<noteq> []" and "distinct (map fst kvs)"
    and "\<forall>k \<in> fst ` set kvs.
           k \<notin> {''$eq'', ''$lt'', ''$lte'', ''$gt'', ''$gte'', ''$in'', ''$and'', ''$or'',
                 ''$startsWith'', ''$contains'', ''$size''}"
  shows "toSequelize (PObject (map (\<lambda>(k, s). (k, PScalar s)) kvs)) =
           Inr (SObject [(KString ''where'',
                  SObject (map (\<lambda>(k, s). (KString (default_key k), SScalar s)) kvs))])"
proof -
  have r: "rewrite (PObject (map (\<lambda>(k, s). (k, PScalar s)) kvs)) [] =
           Inr (map (\<lambda>(k, s). (KString (default_key k), SScalar s)) kvs, [])"
    using rewrite_entries_scalars [OF assms(2,3), of "[]" "[]"]
    by (simp add: own_entries_def)
  have k: "lodash_keys (map (\<lambda>(k, s). (KString (default_key k), SScalar s)) kvs) \<noteq> []"
    using assms(1) by (simp add: lodash_keys_strings)
  show ?thesis
    unfolding toSequelize_def r using k by simp
qed

text \<open>
  Claim C3, as amended. Of the thirteen keywords, the key rewrite recognizes eleven: the ten
  keywords \<^verbatim>\<open>$eq\<close>, \<^verbatim>\<open>$lt\<close>, \<^verbatim>\<open>$lte\<close>, \<^verbatim>\<open>$gt\<close>, \<^verbatim>\<open>$gte\<close>, \<^verbatim>\<open>$in\<close>, \<^verbatim>\<open>$and\<close>, \<^verbatim>\<open>$or\<close>,
  \<^verbatim>\<open>$startsWith\<close>, \<^verbatim>\<open>$contains\<close> become operator symbols and \<^verbatim>\<open>$size\<close> raises an error.
  \<^verbatim>\<open>$all\<close> and \<^verbatim>\<open>$regex\<close> are not recognized: they are rewritten to \<^verbatim>\<open>data.$all\<close> and
  \<^verbatim>\<open>data.$regex\<close>. A key \<open>k\<close> is rewritten to \<^verbatim>\<open>data.<k>\<close> exactly when it is none of these
  eleven keywords and neither \<^verbatim>\<open>id\<close> nor \<^verbatim>\<open>labels\<close>.
\<close>

theorem getSequelizeOperator_reserved:
  "((k, s) \<in> {(''$eq'', Op_eq), (''$lt'', Op_lt), (''$lte'', Op_lte), (''$gt'', Op_gt),
               (''$gte'', Op_gte), (''$in'', Op_in), (''$and'', Op_and), (''$or'', Op_or),
               (''$startsWith'', Op_startsWith), (''$contains'', Op_substring)} \<longrightarrow>
      getSequelizeOperator k = Inr (KSymbol s))
 \<and> getSequelizeOperator ''$size'' =
      Inl (Error ''Should have been handled separately already.'')
 \<and> getSequelizeOperator ''$all'' = Inr (KString ''data.$all'')
 \<and> getSequelizeOperator ''$regex'' = Inr (KString ''data.$regex'')
 \<and> (getSequelizeOperator k = Inr (KString (''data.'' @ k)) \<longleftrightarrow>
      k \<notin> {''$eq'', ''$lt'', ''$lte'', ''$gt'', ''$gte'', ''$in'', ''$and'', ''$or'',
            ''$startsWith'', ''$contains'', ''$size'', ''id'', ''labels''})"
  by (auto simp add: getSequelizeOperator_def)

text \<open>The keys \<^verbatim>\<open>$contains\<close>, \<^verbatim>\<open>$regex\<close> and \<^verbatim>\<open>name\<close>.\<close>

theorem getSequelizeOperator_reserved_witness:
  "getSequelizeOperator ''$contains'' = Inr (KSymbol Op_substring)
 \<and> getSequelizeOperator ''$contains'' \<noteq> Inr (KString ''data.$contains'')
 \<and> getSequelizeOperator ''$regex'' = Inr (KString ''data.$regex'')
 \<and> getSequelizeOperator ''name'' = Inr (KString ''data.name'')"
  using getSequelizeOperator_reserved [of "''$contains''" Op_substring]
    getSequelizeOperator_reserved [of "''name''" Op_eq]
  by simp

text \<open>
  Claim C3 as stated, that none of the thirteen keywords is rewritten to an attribute name
  under \<^verbatim>\<open>data.\<close>, fails on \<^verbatim>\<open>$regex\<close>: \<^verbatim>\<open>translate({name: {$regex: 'a.b'}})\<close> has the key
  \<^verbatim>\<open>data.$regex\<close>.
\<close>

theorem toSequelize_regex_is_attribute:
  "toSequelize (PObject [(''name'', PObject [(''$regex'', PScalar (Str ''a.b''))])]) =
     Inr (SObject [(KString ''where'',
            SObject [(KString ''data.name'',
              SObject [(KString ''data.$regex'', SScalar (Str ''a.b''))])])])"
  by code_simp

text \<open>
  Claim C1. When at least one standalone predicate was collected, \<^verbatim>\<open>toSequelize\<close> is to
  return \<^verbatim>\<open>{where: S}\<close> with the rewritten mapping \<open>P\<close>, when non-empty, appended as the last
  element. On \<^verbatim>\<open>{a: {$size: 4}, $or: [{b: 1}, {b: 2}]}\<close> the mapping \<open>P\<close> is
  \<^verbatim>\<open>{[Op.or]: [{'data.b': 1}, {'data.b': 2}]}\<close>, which is not empty, and the code returns the
  sequence with the standalone predicate alone: the second branch tests \<^verbatim>\<open>_.keys(p)\<close> only,
  which does not see symbol keys, where the first branch also tests
  \<^verbatim>\<open>Object.getOwnPropertySymbols(p)\<close>.
\<close>

theorem toSequelize_drops_symbol_keyed_mapping:
  "toSequelize (PObject [(''a'', PObject [(''$size'', PScalar (Num (int_number 4)))]),
                         (''$or'', PArray [PObject [(''b'', PScalar (Num (int_number 1)))],
                                           PObject [(''b'', PScalar (Num (int_number 2)))]])]) =
   Inr (SObject [(KString ''where'',
     SArray [JsonArrayLengthWhere ([CHR 0x22] @ ''$.a'' @ [CHR 0x22]) (PScalar (Num (int_number 4)))])])"
  by code_simp

text \<open>
  What the assembly does in general: the first branch tells the empty mapping apart correctly,
  the second one appends \<open>P\<close> only when it has a string key.
\<close>

lemma no_keys_iff: "lodash_keys p = [] \<and> getOwnPropertySymbols p = [] \<longleftrightarrow> p = []"
proof (cases p)
  case Nil
  then show ?thesis by (simp add: lodash_keys_def getOwnPropertySymbols_def)
next
  case (Cons kv p')
  obtain k v where "kv = (k, v)" by (cases kv)
  then show ?thesis
    using Cons by (cases k) (simp_all add: lodash_keys_def getOwnPropertySymbols_def)
qed

lemma toSequelize_assembly:
  assumes "rewrite projector [] = Inr (p, specialCases)"
  shows "toSequelize projector =
           Inr (if specialCases = [] then
                  (if p = [] then SObject [] else SObject [(KString ''where'', SObject p)])
                else
                  SObject [(KString ''where'',
                    SArray (if lodash_keys p = [] then specialCases
                            else specialCases @ [SObject p]))])"
  unfolding toSequelize_def assms using no_keys_iff [of p] by auto

text \<open>
  \<^verbatim>\<open>translate({})\<close>, \<^verbatim>\<open>translate({a: {$size: 4}, b: 3})\<close>, and the mapping with the only key
  \<^verbatim>\<open>Op.or\<close> when no standalone predicate is collected (it is kept).
\<close>

lemma toSequelize_empty: "toSequelize (PObject []) = Inr (SObject [])"
  by code_simp

lemma toSequelize_size_then_ordinary:
  "toSequelize (PObject [(''a'', PObject [(''$size'', PScalar (Num (int_number 4)))]),
                         (''b'', PScalar (Num (int_number 3)))]) =
   Inr (SObject [(KString ''where'',
     SArray [JsonArrayLengthWhere ([CHR 0x22] @ ''$.a'' @ [CHR 0x22]) (PScalar (Num (int_number 4))),
             SObject [(KString ''data.b'', SScalar (Num (int_number 3)))]])])"
  by code_simp

lemma toSequelize_symbol_keyed_alone:
  "toSequelize (PObject [(''$or'', PArray [PObject [(''b'', PScalar (Num (int_number 1)))],
                                           PObject [(''b'', PScalar (Num (int_number 2)))]])]) =
   Inr (SObject [(KString ''where'',
     SObject [(KSymbol Op_or, SArray [SObject [(KString ''data.b'', SScalar (Num (int_number 1)))],
                                      SObject [(KString ''data.b'', SScalar (Num (int_number 2)))]])])])"
  by code_simp

section \<open>The translator at every nesting level\<close>

text \<open>
  The index keys \<^verbatim>\<open>"0"\<close>, \<^verbatim>\<open>"1"\<close>, ... of arrays and strings are pairwise distinct and are
  none of the keywords, so the key rewrite turns the index \<open>i\<close> into \<^verbatim>\<open>data.<i>\<close>.
\<close>

lemma digit_char_cases:
  "d < 10 \<Longrightarrow> digit_char d \<in> set ''0123456789''"
proof -
  assume "d < 10"
  then have "d < length ''0123456789''" by simp
  then show ?thesis unfolding digit_char_def by (rule nth_mem)
qed

lemma digit_char_inject: "a < 10 \<Longrightarrow> b < 10 \<Longrightarrow> digit_char a = digit_char b \<Longrightarrow> a = b"
proof -
  assume a: "a < 10" and b: "b < 10" and e: "digit_char a = digit_char b"
  have d: "distinct ''0123456789''" by simp
  have "''0123456789'' ! a = ''0123456789'' ! b" using e by (simp add: digit_char_def)
  then show "a = b" using d a b by (simp add: nth_eq_iff_index_eq)
qed

lemma show_nat_not_Nil: "show_nat n \<noteq> []"
  by (subst show_nat.simps) simp

lemma last_show_nat: "last (show_nat n) \<in> set ''0123456789''"
proof -
  have "last (show_nat n) = digit_char (n mod 10)"
    by (subst show_nat.simps) (simp add: digit_char_def)
  then show ?thesis using digit_char_cases [of "n mod 10"] by simp
qed

lemma show_nat_one_digit: "length (show_nat n) = 1 \<longleftrightarrow> n < 10"
proof (cases "n < 10")
  case True
  then show ?thesis by (subst show_nat.simps) simp
next
  case False
  then have "show_nat n = show_nat (n div 10) @ [digit_char (n mod 10)]"
    by (subst show_nat.simps) simp
  then show ?thesis using False show_nat_not_Nil [of "n div 10"] by (cases "show_nat (n div 10)") auto
qed

lemma show_nat_inject: "show_nat n = show_nat m \<Longrightarrow> n = m"
proof (induction n arbitrary: m rule: show_nat.induct)
  case (1 n)
  show ?case
  proof (cases "n < 10")
    case True
    then have n: "show_nat n = [digit_char n]" by (subst show_nat.simps) simp
    then have "length (show_nat m) = 1" using "1.prems" by simp
    then have m: "m < 10" using show_nat_one_digit [of m] by simp
    then have "show_nat m = [digit_char m]" by (subst show_nat.simps) simp
    then show ?thesis using n "1.prems" True m digit_char_inject by simp
  next
    case False
    then have n: "show_nat n = show_nat (n div 10) @ [digit_char (n mod 10)]"
      by (subst show_nat.simps) simp
    have "length (show_nat m) \<noteq> 1"
      using "1.prems" False show_nat_one_digit [of n] by simp
    then have m10: "\<not> m < 10" using show_nat_one_digit [of m] by simp
    then have m: "show_nat m = show_nat (m div 10) @ [digit_char (m mod 10)]"
      by (subst show_nat.simps) simp
    have e: "show_nat (n div 10) = show_nat (m div 10)"
      and d: "digit_char (n mod 10) = digit_char (m mod 10)"
      using n m "1.prems" by simp_all
    have "n div 10 = m div 10" using "1.IH" [OF False e] .
    moreover have "n mod 10 = m mod 10" using d digit_char_inject by simp
    ultimately show ?thesis by (metis div_mult_mod_eq)
  qed
qed

lemma show_nat_not_keyword:
  "show_nat i \<notin> {''$eq'', ''$lt'', ''$lte'', ''$gt'', ''$gte'', ''$in'', ''$and'', ''$or'',
                  ''$startsWith'', ''$contains'', ''$size'', ''id'', ''labels''}"
proof
  assume a: "show_nat i \<in> {''$eq'', ''$lt'', ''$lte'', ''$gt'', ''$gte'', ''$in'', ''$and'', ''$or'',
                  ''$startsWith'', ''$contains'', ''$size'', ''id'', ''labels''}"
  then have "last (show_nat i) \<notin> set ''0123456789''" by auto
  then show False using last_show_nat by blast
qed

lemma getSequelizeOperator_index:
  "getSequelizeOperator (show_nat i) = Inr (KString (''data.'' @ show_nat i))"
  using show_nat_not_keyword [of i] by (simp add: getSequelizeOperator_def)

text \<open>
  The key rewrite maps distinct keys to distinct keys, and \<^verbatim>\<open>$size\<close> is the only key on
  which it throws.
\<close>

lemma getSequelizeOperator_inject:
  "getSequelizeOperator a = Inr x \<Longrightarrow> getSequelizeOperator b = Inr x \<Longrightarrow> a = b"
  by (auto simp add: getSequelizeOperator_def split: if_splits)

lemma getSequelizeOperator_not_size:
  "k \<noteq> ''$size'' \<Longrightarrow> \<exists>nk. getSequelizeOperator k = Inr nk"
  by (simp add: getSequelizeOperator_def)

lemma getSequelizeOperator_size_iff:
  "(\<exists>nk. getSequelizeOperator k = Inr nk) \<longleftrightarrow> k \<noteq> ''$size''"
  by (simp add: getSequelizeOperator_def)

text \<open>
  The special cases collected before a call of \<^verbatim>\<open>rewrite\<close> do not influence it: they stay in
  front of the ones it adds, and the object it returns is \<open>rewritten\<close>.
\<close>

lemma rewrite_prefix:
  "rewrite p (sc0 @ sc) =
     (case rewrite p sc of Inl e \<Rightarrow> Inl e | Inr (r', s) \<Rightarrow> Inr (r', sc0 @ s))"
  and rewrite_entries_prefix:
  "rewrite_entries es r (sc0 @ sc) =
     (case rewrite_entries es r sc of Inl e \<Rightarrow> Inl e | Inr (r', s) \<Rightarrow> Inr (r', sc0 @ s))"
  and rewrite_array_prefix:
  "rewrite_array us (sc0 @ sc) =
     (case rewrite_array us sc of Inl e \<Rightarrow> Inl e | Inr (rs, s) \<Rightarrow> Inr (rs, sc0 @ s))"
proof (induction p sc and es r sc and us sc arbitrary: sc0 and sc0 and sc0
    rule: rewrite_rewrite_entries_rewrite_array.induct)
  case (1 projector specialCases)
  then show ?case by (simp split: sum.splits)
next
  case (2 r specialCases)
  show ?case by simp
next
  case (3 key "value" rest r specialCases)
  show ?case
  proof (cases "getSequelizeOperator key")
    case (Inl e)
    then show ?thesis by simp
  next
    case (Inr newKey)
    show ?thesis
    proof (cases "value")
      case (PScalar x)
      then show ?thesis using Inr "3.IH"(1) by simp
    next
      case (PArray us)
      show ?thesis
      proof (cases "rewrite_array us specialCases")
        case (Inl e)
        then show ?thesis using Inr PArray "3.IH"(2) [OF Inr PArray, of sc0] by simp
      next
        case (Inr b)
        obtain rs y where b: "b = (rs, y)" by (cases b)
        have "rewrite_array us (sc0 @ specialCases) = Inr (rs, sc0 @ y)"
          using \<open>rewrite_array us specialCases = Inr b\<close> b
            "3.IH"(2) [OF \<open>getSequelizeOperator key = Inr newKey\<close> PArray, of sc0] by simp
        then show ?thesis
          using \<open>getSequelizeOperator key = Inr newKey\<close> PArray
            \<open>rewrite_array us specialCases = Inr b\<close> b
            "3.IH"(3) [OF \<open>getSequelizeOperator key = Inr newKey\<close> PArray
              \<open>rewrite_array us specialCases = Inr b\<close> b [symmetric], of sc0]
          by simp
      qed
    next
      case (PObject kvs)
      show ?thesis
      proof (cases "map_of kvs ''$size''")
        case (Some n)
        then show ?thesis
          using Inr PObject "3.IH"(6) [OF Inr PObject Some, of sc0] by simp
      next
        case None
        show ?thesis
        proof (cases "rewrite value specialCases")
          case (Inl e)
          then show ?thesis
            using \<open>getSequelizeOperator key = Inr newKey\<close> PObject None
              "3.IH"(4) [OF \<open>getSequelizeOperator key = Inr newKey\<close> PObject None, of sc0]
            by simp
        next
          case (Inr b)
          obtain x y where b: "b = (x, y)" by (cases b)
          have "rewrite value (sc0 @ specialCases) = Inr (x, sc0 @ y)"
            using Inr b
              "3.IH"(4) [OF \<open>getSequelizeOperator key = Inr newKey\<close> PObject None, of sc0]
            by simp
          then show ?thesis
            using \<open>getSequelizeOperator key = Inr newKey\<close> PObject None Inr b
              "3.IH"(5) [OF \<open>getSequelizeOperator key = Inr newKey\<close> PObject None Inr
                b [symmetric], of sc0]
            by simp
        qed
      qed
    qed
  qed
next
  case (4 specialCases)
  show ?case by simp
next
  case (5 u us specialCases)
  show ?case
  proof (cases "rewrite u specialCases")
    case (Inl e)
    then show ?thesis using "5.IH"(1) [of sc0] by simp
  next
    case (Inr b)
    obtain x y where b: "b = (x, y)" by (cases b)
    have "rewrite u (sc0 @ specialCases) = Inr (x, sc0 @ y)"
      using Inr b "5.IH"(1) [of sc0] by simp
    then show ?thesis
      using Inr b "5.IH"(2) [OF Inr b [symmetric], of sc0] by (simp split: sum.splits)
  qed
qed

lemma rewrite_rewritten:
  assumes "rewrite p sc = Inr (r, sc')"
  shows "r = rewritten p"
proof -
  have "rewrite p (sc @ []) =
          (case rewrite p [] of Inl e \<Rightarrow> Inl e | Inr (r', s) \<Rightarrow> Inr (r', sc @ s))"
    by (rule rewrite_prefix)
  then show ?thesis
    using assms unfolding rewritten_def by (auto split: sum.splits)
qed

lemma rewrite_array_rewritten:
  "rewrite_array us sc = Inr (rs, sc') \<Longrightarrow> rs = map (\<lambda>u. SObject (rewritten u)) us"
proof (induction us arbitrary: sc rs)
  case Nil
  then show ?case by simp
next
  case (Cons u us)
  from Cons.prems obtain r y where u: "rewrite u sc = Inr (r, y)"
    by (cases "rewrite u sc") auto
  from Cons.prems u obtain rs' where rs': "rewrite_array us y = Inr (rs', sc')" "rs = SObject r # rs'"
    by (cases "rewrite_array us y") auto
  show ?case
    using rewrite_rewritten [OF u] Cons.IH [OF rs'(1)] rs'(2) by simp
qed

text \<open>
  The entry of a key in the object that the loop of \<^verbatim>\<open>rewrite\<close> returns: entries with other
  keys leave it alone, and the entry of the key itself sets it.
\<close>

lemma map_of_obj_set: "map_of (obj_set k v r) = (map_of r)(k \<mapsto> v)"
  by (induction r) (auto simp add: fun_eq_iff)

lemma fst_set_obj_set: "fst ` set (obj_set k v r) = insert k (fst ` set r)"
  by (simp add: dom_map_of_conv_image_fst [symmetric] map_of_obj_set)

lemma rewrite_entries_other_key:
  assumes "rewrite_entries es r sc = Inr (rf, scf)"
    and "\<forall>k \<in> fst ` set es. getSequelizeOperator k \<noteq> Inr nk"
  shows "map_of rf nk = map_of r nk"
  using assms
proof (induction es arbitrary: r sc)
  case Nil
  then show ?case by simp
next
  case (Cons kv es)
  obtain k v where kv: "kv = (k, v)" by (cases kv)
  from Cons.prems(1) kv obtain newKey where op: "getSequelizeOperator k = Inr newKey"
    by (cases "getSequelizeOperator k") auto
  have ne: "newKey \<noteq> nk" using Cons.prems(2) kv op by auto
  have rest: "\<forall>k \<in> fst ` set es. getSequelizeOperator k \<noteq> Inr nk"
    using Cons.prems(2) by simp
  show ?case
  proof (cases v)
    case (PScalar s)
    then have "rewrite_entries es (obj_set newKey (SScalar s) r) sc = Inr (rf, scf)"
      using Cons.prems(1) kv op by simp
    then show ?thesis using Cons.IH rest ne by (simp add: map_of_obj_set)
  next
    case (PArray us)
    then obtain rs y where "rewrite_array us sc = Inr (rs, y)"
      and "rewrite_entries es (obj_set newKey (SArray rs) r) y = Inr (rf, scf)"
      using Cons.prems(1) kv op by (cases "rewrite_array us sc") auto
    then show ?thesis using Cons.IH rest ne by (simp add: map_of_obj_set)
  next
    case (PObject kvs)
    show ?thesis
    proof (cases "map_of kvs ''$size''")
      case (Some n)
      then show ?thesis using Cons.prems(1) kv op PObject Cons.IH rest by simp
    next
      case None
      then obtain r' y where "rewrite v sc = Inr (r', y)"
        and "rewrite_entries es (obj_set newKey (SObject r') r) y = Inr (rf, scf)"
        using Cons.prems(1) kv op PObject by (cases "rewrite v sc") auto
      then show ?thesis using Cons.IH rest ne by (simp add: map_of_obj_set)
    qed
  qed
qed

lemma rewrite_entries_entry:
  assumes "rewrite_entries es r sc = Inr (rf, scf)"
    and "distinct (map fst es)"
    and "(k, v) \<in> set es"
    and "getSequelizeOperator k = Inr nk"
    and "nk \<notin> fst ` set r"
  shows "map_of rf nk =
           (case v of
              PScalar s \<Rightarrow> Some (SScalar s)
            | PArray us \<Rightarrow> Some (SArray (map (\<lambda>u. SObject (rewritten u)) us))
            | PObject kvs \<Rightarrow>
                if ''$size'' \<in> fst ` set kvs then None else Some (SObject (rewritten v)))"
  using assms
proof (induction es arbitrary: r sc)
  case Nil
  then show ?case by simp
next
  case (Cons kv es)
  obtain k0 v0 where kv: "kv = (k0, v0)" by (cases kv)
  from Cons.prems(1) kv obtain newKey where op: "getSequelizeOperator k0 = Inr newKey"
    by (cases "getSequelizeOperator k0") auto
  have d: "distinct (map fst es)" and k0: "k0 \<notin> fst ` set es"
    using Cons.prems(2) kv by auto
  show ?case
  proof (cases "(k, v) = (k0, v0)")
    case True
    then have kv': "kv = (k, v)" using kv by simp
    have nk: "newKey = nk" using op Cons.prems(4) True by simp
    have op': "getSequelizeOperator k = Inr nk" by (rule Cons.prems(4))
    have others: "\<forall>k' \<in> fst ` set es. getSequelizeOperator k' \<noteq> Inr nk"
    proof
      fix k' assume "k' \<in> fst ` set es"
      then have "k' \<noteq> k" using k0 True by auto
      then show "getSequelizeOperator k' \<noteq> Inr nk"
        using getSequelizeOperator_inject [OF _ Cons.prems(4), of k'] by blast
    qed
    show ?thesis
    proof (cases v)
      case (PScalar s)
      then have "rewrite_entries es (obj_set nk (SScalar s) r) sc = Inr (rf, scf)"
        using Cons.prems(1) kv' op' by simp
      then show ?thesis
        using rewrite_entries_other_key [OF _ others] PScalar by (simp add: map_of_obj_set)
    next
      case (PArray us)
      then obtain rs y where a: "rewrite_array us sc = Inr (rs, y)"
        and "rewrite_entries es (obj_set nk (SArray rs) r) y = Inr (rf, scf)"
        using Cons.prems(1) kv' op' by (cases "rewrite_array us sc") auto
      then show ?thesis
        using rewrite_entries_other_key [OF _ others] PArray rewrite_array_rewritten [OF a]
        by (simp add: map_of_obj_set)
    next
      case (PObject kvs)
      show ?thesis
      proof (cases "map_of kvs ''$size''")
        case (Some n)
        then have "(''$size'', n) \<in> set kvs" by (rule map_of_SomeD)
        then have s: "''$size'' \<in> fst ` set kvs" by force
        have "rewrite_entries es r
                (sc @ [JsonArrayLengthWhere ([CHR 0x22] @ ''$.'' @ k @ [CHR 0x22]) n]) =
              Inr (rf, scf)"
          using Cons.prems(1) kv' op' PObject Some by simp
        then have "map_of rf nk = map_of r nk"
          by (rule rewrite_entries_other_key) (rule others)
        moreover have "map_of r nk = None"
          using Cons.prems(5) by (simp add: map_of_eq_None_iff)
        ultimately show ?thesis using PObject s by simp
      next
        case None
        then have s: "''$size'' \<notin> fst ` set kvs" by (simp add: map_of_eq_None_iff)
        from None obtain r' y where a: "rewrite v sc = Inr (r', y)"
          and "rewrite_entries es (obj_set nk (SObject r') r) y = Inr (rf, scf)"
          using Cons.prems(1) kv' op' PObject by (cases "rewrite v sc") auto
        then show ?thesis
          using rewrite_entries_other_key [OF _ others] PObject s rewrite_rewritten [OF a]
          by (simp add: map_of_obj_set)
      qed
    qed
  next
    case False
    then have mem: "(k, v) \<in> set es" using Cons.prems(3) kv by auto
    then have "k \<noteq> k0" using k0 by force
    then have ne: "newKey \<noteq> nk"
      using getSequelizeOperator_inject [OF op, of k] Cons.prems(4) by auto
    have fresh: "nk \<notin> fst ` set (obj_set newKey w r)" for w
      using Cons.prems(5) ne by (simp add: fst_set_obj_set)
    show ?thesis
    proof (cases v0)
      case (PScalar s)
      then have "rewrite_entries es (obj_set newKey (SScalar s) r) sc = Inr (rf, scf)"
        using Cons.prems(1) kv op by simp
      then show ?thesis by (rule Cons.IH [OF _ d mem Cons.prems(4) fresh])
    next
      case (PArray us)
      then obtain rs y where
        "rewrite_entries es (obj_set newKey (SArray rs) r) y = Inr (rf, scf)"
        using Cons.prems(1) kv op by (cases "rewrite_array us sc") auto
      then show ?thesis by (rule Cons.IH [OF _ d mem Cons.prems(4) fresh])
    next
      case (PObject kvs)
      show ?thesis
      proof (cases "map_of kvs ''$size''")
        case (Some n)
        then have "rewrite_entries es r
                (sc @ [JsonArrayLengthWhere ([CHR 0x22] @ ''$.'' @ k0 @ [CHR 0x22]) n]) =
              Inr (rf, scf)"
          using Cons.prems(1) kv op PObject by simp
        then show ?thesis by (rule Cons.IH [OF _ d mem Cons.prems(4) Cons.prems(5)])
      next
        case None
        then obtain r' y where
          "rewrite_entries es (obj_set newKey (SObject r') r) y = Inr (rf, scf)"
          using Cons.prems(1) kv op PObject by (cases "rewrite v0 sc") auto
        then show ?thesis by (rule Cons.IH [OF _ d mem Cons.prems(4) fresh])
      qed
    qed
  qed
qed

text \<open>A throw-free filter is rewritten without an exception.\<close>

lemma indexed_entry:
  assumes "(k, v) \<in> set (indexed xs)"
  shows "k \<noteq> ''$size'' \<and> v \<in> set xs"
proof -
  have v: "v \<in> set xs"
    using assms unfolding indexed_def by (rule set_zip_rightD)
  have "k \<in> set (map show_nat [0..<length xs])"
    using assms unfolding indexed_def by (rule set_zip_leftD)
  then obtain i where "k = show_nat i" by auto
  then have "k \<noteq> ''$size''" using show_nat_not_keyword [of i] by auto
  then show ?thesis using v by simp
qed

lemma own_entries_throw_free:
  assumes "throw_free p"
  shows "\<exists>es. own_entries p = Inr es \<and>
              (\<forall>kv \<in> set es. fst kv \<noteq> ''$size'' \<and> throw_free_value (snd kv))"
proof (cases p)
  case (PScalar x)
  show ?thesis
  proof (cases x)
    case (Str s)
    have "fst kv \<noteq> ''$size'' \<and> throw_free_value (snd kv)"
      if "kv \<in> set (indexed (map (\<lambda>c. PScalar (Str [c])) s))" for kv
      using indexed_entry [of "fst kv" "snd kv" "map (\<lambda>c. PScalar (Str [c])) s"] that by auto
    then show ?thesis using PScalar Str by (simp add: own_entries_def)
  qed (use assms PScalar in \<open>simp_all add: own_entries_def\<close>)
next
  case (PArray xs)
  have "fst kv \<noteq> ''$size'' \<and> throw_free_value (snd kv)" if "kv \<in> set (indexed xs)" for kv
    using indexed_entry [of "fst kv" "snd kv" xs] that assms PArray by auto
  then show ?thesis using PArray by (simp add: own_entries_def)
next
  case (PObject kvs)
  then show ?thesis using assms by (force simp add: own_entries_def)
qed

lemma rewrite_no_throw:
  "throw_free p \<Longrightarrow> \<exists>x. rewrite p sc = Inr x"
  and rewrite_entries_no_throw:
  "\<forall>kv \<in> set es. fst kv \<noteq> ''$size'' \<and> throw_free_value (snd kv) \<Longrightarrow>
   \<exists>x. rewrite_entries es r sc = Inr x"
  and rewrite_array_no_throw:
  "\<forall>u \<in> set us. throw_free u \<Longrightarrow> \<exists>x. rewrite_array us sc = Inr x"
proof (induction p sc and es r sc and us sc rule: rewrite_rewrite_entries_rewrite_array.induct)
  case (1 projector specialCases)
  from own_entries_throw_free [OF "1.prems"] obtain es where
    es: "own_entries projector = Inr es"
    "\<forall>kv \<in> set es. fst kv \<noteq> ''$size'' \<and> throw_free_value (snd kv)" by blast
  show ?case using "1.IH" [OF es] es(1) by simp
next
  case (2 r specialCases)
  show ?case by simp
next
  case (3 key "value" rest r specialCases)
  have key: "key \<noteq> ''$size''" and val: "throw_free_value value"
    and rest: "\<forall>kv \<in> set rest. fst kv \<noteq> ''$size'' \<and> throw_free_value (snd kv)"
    using "3.prems" by auto
  from getSequelizeOperator_not_size [OF key] obtain newKey where
    op: "getSequelizeOperator key = Inr newKey" by blast
  show ?case
  proof (cases "value")
    case (PScalar x)
    then show ?thesis using op "3.IH"(1) [OF op PScalar rest] by simp
  next
    case (PArray us)
    have "\<forall>u \<in> set us. throw_free u" using val PArray by simp
    from "3.IH"(2) [OF op PArray this] obtain rs y where
      a: "rewrite_array us specialCases = Inr (rs, y)" by auto
    show ?thesis
      using op PArray a "3.IH"(3) [OF op PArray a refl rest] by simp
  next
    case (PObject kvs)
    show ?thesis
    proof (cases "map_of kvs ''$size''")
      case (Some n)
      then show ?thesis using op PObject "3.IH"(6) [OF op PObject Some rest] by simp
    next
      case None
      then have "''$size'' \<notin> fst ` set kvs" by (simp add: map_of_eq_None_iff)
      then have "throw_free value" using val PObject by simp
      from "3.IH"(4) [OF op PObject None this] obtain x y where
        a: "rewrite value specialCases = Inr (x, y)" by auto
      show ?thesis
        using op PObject None a "3.IH"(5) [OF op PObject None a refl rest] by simp
    qed
  qed
next
  case (4 specialCases)
  show ?case by simp
next
  case (5 u us specialCases)
  have u: "throw_free u" and us: "\<forall>u \<in> set us. throw_free u" using "5.prems" by auto
  from "5.IH"(1) [OF u] obtain x y where a: "rewrite u specialCases = Inr (x, y)" by auto
  show ?case using a "5.IH"(2) [OF a refl us] by auto
qed

lemma toSequelize_no_throw:
  assumes "throw_free p"
  shows "\<exists>w. toSequelize p = Inr w"
proof -
  from rewrite_no_throw [OF assms, of "[]"] obtain r S where "rewrite p [] = Inr (r, S)" by auto
  then show ?thesis unfolding toSequelize_def by simp
qed

text \<open>
  \<^verbatim>\<open>rewrite\<close> applied to a scalar: a string gives one entry \<^verbatim>\<open>data.<i>\<close> per character, a
  number or a boolean gives the empty object.
\<close>

lemma rewrite_string:
  "rewrite (PScalar (Str s)) sc =
     Inr (map (\<lambda>(i, c). (KString (''data.'' @ show_nat i), SScalar (Str [c])))
            (zip [0..<length s] s), sc)"
proof -
  let ?kvs = "zip (map show_nat [0..<length s]) (map (\<lambda>c. Str [c]) s)"
  have keys: "map fst ?kvs = map show_nat [0..<length s]" by simp
  have d: "distinct (map fst ?kvs)"
    unfolding keys by (simp add: distinct_map inj_on_def show_nat_inject)
  have kw: "\<forall>k \<in> fst ` set ?kvs.
           k \<notin> {''$eq'', ''$lt'', ''$lte'', ''$gt'', ''$gte'', ''$in'', ''$and'', ''$or'',
                 ''$startsWith'', ''$contains'', ''$size''}"
  proof
    fix k assume "k \<in> fst ` set ?kvs"
    then have "k \<in> set (map show_nat [0..<length s])"
      unfolding set_map [symmetric] keys .
    then obtain i where "k = show_nat i" by auto
    then show "k \<notin> {''$eq'', ''$lt'', ''$lte'', ''$gt'', ''$gte'', ''$in'', ''$and'', ''$or'',
                 ''$startsWith'', ''$contains'', ''$size''}"
      using show_nat_not_keyword [of i] by auto
  qed
  have e: "indexed (map (\<lambda>c. PScalar (Str [c])) s) = map (\<lambda>(k, x). (k, PScalar x)) ?kvs"
    by (auto simp add: indexed_def zip_map_map)
  have dk: "default_key (show_nat i) = ''data.'' @ show_nat i" for i
    using show_nat_not_keyword [of i] by (simp add: default_key_def)
  have m: "map (\<lambda>(k, x). (KString (default_key k), SScalar x)) ?kvs =
           map (\<lambda>(i, c). (KString (''data.'' @ show_nat i), SScalar (Str [c])))
             (zip [0..<length s] s)"
    by (auto simp add: zip_map_map dk)
  show ?thesis
    using rewrite_entries_scalars [OF d kw, of "[]" sc]
    by (simp add: own_entries_def e m)
qed

lemma rewrite_scalar:
  assumes "v \<noteq> Undefined" and "v \<noteq> Null"
  shows "rewrite (PScalar v) sc =
           Inr (case v of
                  Str s \<Rightarrow> map (\<lambda>(i, c). (KString (''data.'' @ show_nat i), SScalar (Str [c])))
                             (zip [0..<length s] s)
                | _ \<Rightarrow> [], sc)"
proof (cases v)
  case (Str s)
  then show ?thesis using rewrite_string [of s sc] by simp
qed (use assms in \<open>simp_all add: own_entries_def\<close>)

lemma rewrite_array_scalars:
  assumes "\<forall>v \<in> set vs. v \<noteq> Undefined \<and> v \<noteq> Null"
  shows "rewrite_array (map PScalar vs) sc =
           Inr (map (\<lambda>v. SObject (case v of
                  Str s \<Rightarrow> map (\<lambda>(i, c). (KString (''data.'' @ show_nat i), SScalar (Str [c])))
                             (zip [0..<length s] s)
                | _ \<Rightarrow> [])) vs, sc)"
  using assms
proof (induction vs)
  case Nil
  show ?case by simp
next
  case (Cons v vs)
  have v: "v \<noteq> Undefined" "v \<noteq> Null" using Cons.prems by simp_all
  have "rewrite_array (map PScalar (v # vs)) sc =
          (case rewrite (PScalar v) sc of
             Inl e \<Rightarrow> Inl e
           | Inr (r, sc') \<Rightarrow>
               (case rewrite_array (map PScalar vs) sc' of
                  Inl e \<Rightarrow> Inl e
                | Inr (rs, sc'') \<Rightarrow> Inr (SObject r # rs, sc'')))"
    by (simp only: list.map rewrite_array.simps)
  then show ?case
    unfolding rewrite_scalar [OF v] using Cons by simp
qed

text \<open>
  Claim C9, as amended. \<^verbatim>\<open>rewrite\<close> is applied element-wise to array values. Applied to a
  number or a boolean it yields the empty mapping (the key enumeration is empty); applied to a
  string it yields the mapping from \<^verbatim>\<open>data.<i>\<close> to the \<open>i\<close>-th character, which is empty for
  the empty string only. Hence for every filter \<^verbatim>\<open>{f: {$in: [v1, ..., vn]}}\<close> whose key \<open>f\<close>
  the key rewrite turns into a key \<open>K\<close> (every \<open>f\<close> but \<^verbatim>\<open>$size\<close>; \<open>K\<close> is \<^verbatim>\<open>data.f\<close> when \<open>f\<close>
  is neither a connector keyword nor \<^verbatim>\<open>id\<close> nor \<^verbatim>\<open>labels\<close>) and whose elements are numbers,
  booleans or strings, \<^verbatim>\<open>toSequelize\<close> returns \<^verbatim>\<open>{where: {K: {[Op.in]: [m1, ..., mn]}}}\<close>,
  where \<open>mi\<close> is \<^verbatim>\<open>{}\<close> for a number or a boolean and the mapping of the characters for a
  string: the elements are replaced by these mappings, not preserved.
\<close>

theorem toSequelize_in_scalars:
  assumes "f \<noteq> ''$size''"
    and "\<forall>v \<in> set vs. v \<noteq> Undefined \<and> v \<noteq> Null"
  shows "(\<exists>K. getSequelizeOperator f = Inr K
          \<and> (f \<notin> {''$eq'', ''$lt'', ''$lte'', ''$gt'', ''$gte'', ''$in'', ''$and'', ''$or'',
                   ''$startsWith'', ''$contains'', ''id'', ''labels''} \<longrightarrow>
               K = KString (''data.'' @ f))
          \<and> toSequelize (PObject [(f, PObject [(''$in'', PArray (map PScalar vs))])]) =
               Inr (SObject [(KString ''where'',
                      SObject [(K,
                        SObject [(KSymbol Op_in,
                          SArray (map (\<lambda>v. SObject (case v of
                              Str s \<Rightarrow> map (\<lambda>(i, c). (KString (''data.'' @ show_nat i),
                                                      SScalar (Str [c])))
                                         (zip [0..<length s] s)
                            | _ \<Rightarrow> [])) vs))])])]))
       \<and> rewrite (PScalar (Num n)) specialCases = Inr ([], specialCases)
       \<and> rewrite (PScalar (Bool b)) specialCases = Inr ([], specialCases)
       \<and> rewrite (PScalar (Str s)) specialCases =
           Inr (map (\<lambda>(i, c). (KString (''data.'' @ show_nat i), SScalar (Str [c])))
                  (zip [0..<length s] s), specialCases)"
proof -
  from getSequelizeOperator_not_size [OF assms(1)] obtain nk where
    op: "getSequelizeOperator f = Inr nk" by blast
  let ?ms = "map (\<lambda>v. SObject (case v of
                          Str s \<Rightarrow> map (\<lambda>(i, c). (KString (''data.'' @ show_nat i),
                                                  SScalar (Str [c])))
                                     (zip [0..<length s] s)
                        | _ \<Rightarrow> [])) vs"
  have inner: "rewrite (PObject [(''$in'', PArray (map PScalar vs))]) [] =
               Inr ([(KSymbol Op_in, SArray ?ms)], [])"
    using rewrite_array_scalars [OF assms(2), of "[]"]
    by (simp add: own_entries_def getSequelizeOperator_def)
  have outer: "rewrite (PObject [(f, PObject [(''$in'', PArray (map PScalar vs))])]) [] =
               Inr ([(nk, SObject [(KSymbol Op_in, SArray ?ms)])], [])"
    using inner op by (simp add: own_entries_def)
  have a: "toSequelize (PObject [(f, PObject [(''$in'', PArray (map PScalar vs))])]) =
           Inr (SObject [(KString ''where'',
                  SObject [(nk, SObject [(KSymbol Op_in, SArray ?ms)])])])"
    unfolding toSequelize_def outer
    by (cases nk) (simp_all add: lodash_keys_def getOwnPropertySymbols_def)
  have k: "f \<notin> {''$eq'', ''$lt'', ''$lte'', ''$gt'', ''$gte'', ''$in'', ''$and'', ''$or'',
                ''$startsWith'', ''$contains'', ''id'', ''labels''} \<longrightarrow>
            nk = KString (''data.'' @ f)"
    using op by (auto simp add: getSequelizeOperator_def split: if_splits)
  have e: "\<exists>K. getSequelizeOperator f = Inr K
          \<and> (f \<notin> {''$eq'', ''$lt'', ''$lte'', ''$gt'', ''$gte'', ''$in'', ''$and'', ''$or'',
                   ''$startsWith'', ''$contains'', ''id'', ''labels''} \<longrightarrow>
               K = KString (''data.'' @ f))
          \<and> toSequelize (PObject [(f, PObject [(''$in'', PArray (map PScalar vs))])]) =
               Inr (SObject [(KString ''where'',
                      SObject [(K, SObject [(KSymbol Op_in, SArray ?ms)])])])"
    by (intro exI [of _ nk] conjI op k a)
  have n: "rewrite (PScalar (Num n)) specialCases = Inr ([], specialCases)"
    and b: "rewrite (PScalar (Bool b)) specialCases = Inr ([], specialCases)"
    by (simp_all add: own_entries_def)
  show ?thesis
    by (intro conjI e n b rewrite_string)
qed

text \<open>\<^verbatim>\<open>translate({x: {$in: [1, true, '', 'ab']}})\<close>.\<close>

theorem toSequelize_in_scalars_witness:
  "toSequelize (PObject [(''x'', PObject [(''$in'',
       PArray [PScalar (Num (int_number 1)), PScalar (Bool True), PScalar (Str ''''),
               PScalar (Str ''ab'')])])]) =
     Inr (SObject [(KString ''where'',
            SObject [(KString ''data.x'',
              SObject [(KSymbol Op_in,
                SArray [SObject [], SObject [], SObject [],
                        SObject [(KString ''data.0'', SScalar (Str ''a'')),
                                 (KString ''data.1'', SScalar (Str ''b''))]])])])])"
proof -
  have s: "show_nat 0 = ''0''" "show_nat (Suc 0) = ''1''" by code_simp+
  have z: "[0..<2] = [0, 1]" by code_simp
  show ?thesis
    using toSequelize_in_scalars
      [of "''x''" "[Num (int_number 1), Bool True, Str '''', Str ''ab'']"]
    by (auto simp add: s z)
qed

text \<open>
  Claim C9 as stated, for every scalar element, fails on a string element:
  \<^verbatim>\<open>translate({f: {$in: ['a']}})\<close> holds \<^verbatim>\<open>{'data.0': 'a'}\<close> in the array, not \<^verbatim>\<open>{}\<close>.
\<close>

theorem toSequelize_in_string_element:
  "toSequelize (PObject [(''f'', PObject [(''$in'', PArray [PScalar (Str ''a'')])])]) =
     Inr (SObject [(KString ''where'',
            SObject [(KString ''data.f'',
              SObject [(KSymbol Op_in,
                SArray [SObject [(KString ''data.0'', SScalar (Str ''a''))]])])])])
 \<and> toSequelize (PObject [(''f'', PObject [(''$in'', PArray [PScalar (Str ''a'')])])]) \<noteq>
     Inr (SObject [(KString ''where'',
            SObject [(KString ''data.f'',
              SObject [(KSymbol Op_in, SArray [SObject []])])])])"
  by code_simp

text \<open>
  Claim C7, as amended. The key rewrite keeps \<^verbatim>\<open>id\<close> and \<^verbatim>\<open>labels\<close> and rewrites every other
  key \<open>k\<close> that is not a keyword of its \<^verbatim>\<open>switch\<close> (the ten connectors and \<^verbatim>\<open>$size\<close>), also
  one that looks like an operator such as \<^verbatim>\<open>$eqq\<close>, to \<^verbatim>\<open>data.<k>\<close>, without an error.
  \<^verbatim>\<open>toSequelize\<close> throws no error on a throw-free filter, that is one in which the rewrite
  meets neither the key \<^verbatim>\<open>$size\<close> (at the top level or in an object that is an element of an
  array) nor \<^verbatim>\<open>null\<close> or \<^verbatim>\<open>undefined\<close> (as the filter or as an element of an array). The
  rewrite reaches every
  nesting level: for every object (with distinct keys) that is rewritten and every entry
  \<open>(k', v)\<close> of it, the result holds under the rewritten key of \<open>k'\<close> the value \<open>v\<close> itself when
  it is a scalar, the rewritten \<open>v\<close> when it is an object with no key \<^verbatim>\<open>$size\<close>, the array of
  the rewritten elements when it is an array, and nothing when it is an object with a key
  \<^verbatim>\<open>$size\<close>. When no standalone predicate is collected and the rewritten object is not empty,
  \<^verbatim>\<open>toSequelize\<close> returns it under \<^verbatim>\<open>where\<close>; for a filter with scalar values and
  unrecognized keys this is the list of the rewritten keys with their values, in order.
\<close>

theorem toSequelize_key_rewrite:
  "(k \<notin> {''$eq'', ''$lt'', ''$lte'', ''$gt'', ''$gte'', ''$in'', ''$and'', ''$or'',
          ''$startsWith'', ''$contains'', ''$size''} \<longrightarrow>
      getSequelizeOperator k =
        Inr (KString (if k \<in> {''id'', ''labels''} then k else ''data.'' @ k)))
 \<and> (throw_free p \<longrightarrow> (\<exists>w. toSequelize p = Inr w))
 \<and> (rewrite (PObject kvs) sc = Inr (r, sc') \<and> distinct (map fst kvs) \<and> (k', v) \<in> set kvs \<and>
      getSequelizeOperator k' = Inr nk \<longrightarrow>
      map_of r nk =
        (case v of
           PScalar s \<Rightarrow> Some (SScalar s)
         | PArray us \<Rightarrow> Some (SArray (map (\<lambda>u. SObject (rewritten u)) us))
         | PObject kvs' \<Rightarrow>
             if ''$size'' \<in> fst ` set kvs' then None else Some (SObject (rewritten v))))
 \<and> (rewrite p [] = Inr (r', []) \<and> r' \<noteq> [] \<longrightarrow>
      rewritten p = r' \<and> toSequelize p = Inr (SObject [(KString ''where'', SObject r')]))
 \<and> (fs \<noteq> [] \<and> distinct (map fst fs) \<and>
      (\<forall>k \<in> fst ` set fs.
         k \<notin> {''$eq'', ''$lt'', ''$lte'', ''$gt'', ''$gte'', ''$in'', ''$and'', ''$or'',
               ''$startsWith'', ''$contains'', ''$size''}) \<longrightarrow>
      toSequelize (PObject (map (\<lambda>(k, s). (k, PScalar s)) fs)) =
        Inr (SObject [(KString ''where'',
               SObject (map (\<lambda>(k, s). (KString (if k \<in> {''id'', ''labels''} then k
                                                 else ''data.'' @ k), SScalar s)) fs))]))"
proof (intro conjI impI)
  assume "k \<notin> {''$eq'', ''$lt'', ''$lte'', ''$gt'', ''$gte'', ''$in'', ''$and'', ''$or'',
          ''$startsWith'', ''$contains'', ''$size''}"
  then show "getSequelizeOperator k =
        Inr (KString (if k \<in> {''id'', ''labels''} then k else ''data.'' @ k))"
    using getSequelizeOperator_default [of k] unfolding default_key_def by simp
next
  assume "throw_free p"
  then show "\<exists>w. toSequelize p = Inr w" by (rule toSequelize_no_throw)
next
  assume a: "rewrite (PObject kvs) sc = Inr (r, sc') \<and> distinct (map fst kvs) \<and>
      (k', v) \<in> set kvs \<and> getSequelizeOperator k' = Inr nk"
  then have "rewrite_entries kvs [] sc = Inr (r, sc')" by (simp add: own_entries_def)
  then show "map_of r nk =
        (case v of
           PScalar s \<Rightarrow> Some (SScalar s)
         | PArray us \<Rightarrow> Some (SArray (map (\<lambda>u. SObject (rewritten u)) us))
         | PObject kvs' \<Rightarrow>
             if ''$size'' \<in> fst ` set kvs' then None else Some (SObject (rewritten v)))"
    using a by (intro rewrite_entries_entry [of kvs "[]" sc r sc' k']) simp_all
next
  assume a: "rewrite p [] = Inr (r', []) \<and> r' \<noteq> []"
  then show "rewritten p = r'" unfolding rewritten_def by simp
next
  assume a: "rewrite p [] = Inr (r', []) \<and> r' \<noteq> []"
  then have r: "rewrite p [] = Inr (r', [])" by simp
  show "toSequelize p = Inr (SObject [(KString ''where'', SObject r')])"
    using toSequelize_assembly [OF r] a by simp
next
  assume a: "fs \<noteq> [] \<and> distinct (map fst fs) \<and>
      (\<forall>k \<in> fst ` set fs.
         k \<notin> {''$eq'', ''$lt'', ''$lte'', ''$gt'', ''$gte'', ''$in'', ''$and'', ''$or'',
               ''$startsWith'', ''$contains'', ''$size''})"
  have "toSequelize (PObject (map (\<lambda>(k, s). (k, PScalar s)) fs)) =
           Inr (SObject [(KString ''where'',
                  SObject (map (\<lambda>(k, s). (KString (default_key k), SScalar s)) fs))])"
    using a by (intro toSequelize_scalar_entries) simp_all
  then show "toSequelize (PObject (map (\<lambda>(k, s). (k, PScalar s)) fs)) =
        Inr (SObject [(KString ''where'',
               SObject (map (\<lambda>(k, s). (KString (if k \<in> {''id'', ''labels''} then k
                                                 else ''data.'' @ k), SScalar s)) fs))])"
    unfolding default_key_def by simp
qed

text \<open>
  The filter \<^verbatim>\<open>{a: {$eqq: 3}, id: 7, $or: [{b: true}]}\<close>, and \<^verbatim>\<open>translate({id: 3})\<close>,
  \<^verbatim>\<open>translate({labels: 'c,v'})\<close>, \<^verbatim>\<open>translate({a: 3})\<close>.
\<close>

lemma nested_example:
  "rewrite (PObject [(''a'', PObject [(''$eqq'', PScalar (Num (int_number 3)))]),
                     (''id'', PScalar (Num (int_number 7))),
                     (''$or'', PArray [PObject [(''b'', PScalar (Bool True))]])]) [] =
     Inr ([(KString ''data.a'', SObject [(KString ''data.$eqq'', SScalar (Num (int_number 3)))]),
           (KString ''id'', SScalar (Num (int_number 7))),
           (KSymbol Op_or, SArray [SObject [(KString ''data.b'', SScalar (Bool True))]])], [])"
  by code_simp

theorem toSequelize_key_rewrite_witness:
  "getSequelizeOperator ''$eqq'' = Inr (KString ''data.$eqq'')
 \<and> (\<exists>w. toSequelize (PObject [(''a'', PObject [(''$eqq'', PScalar (Num (int_number 3)))]),
                     (''id'', PScalar (Num (int_number 7))),
                     (''$or'', PArray [PObject [(''b'', PScalar (Bool True))]])]) = Inr w)
 \<and> map_of [(KString ''data.a'', SObject [(KString ''data.$eqq'', SScalar (Num (int_number 3)))]),
           (KString ''id'', SScalar (Num (int_number 7))),
           (KSymbol Op_or, SArray [SObject [(KString ''data.b'', SScalar (Bool True))]])]
        (KString ''data.a'') =
      Some (SObject (rewritten (PObject [(''$eqq'', PScalar (Num (int_number 3)))])))
 \<and> toSequelize (PObject [(''a'', PObject [(''$eqq'', PScalar (Num (int_number 3)))]),
                     (''id'', PScalar (Num (int_number 7))),
                     (''$or'', PArray [PObject [(''b'', PScalar (Bool True))]])]) =
      Inr (SObject [(KString ''where'', SObject
          [(KString ''data.a'', SObject [(KString ''data.$eqq'', SScalar (Num (int_number 3)))]),
           (KString ''id'', SScalar (Num (int_number 7))),
           (KSymbol Op_or, SArray [SObject [(KString ''data.b'', SScalar (Bool True))]])])])
 \<and> toSequelize (PObject [(''id'', PScalar (Num (int_number 3)))]) =
     Inr (SObject [(KString ''where'', SObject [(KString ''id'', SScalar (Num (int_number 3)))])])
 \<and> toSequelize (PObject [(''labels'', PScalar (Str ''c,v''))]) =
     Inr (SObject [(KString ''where'', SObject [(KString ''labels'', SScalar (Str ''c,v''))])])
 \<and> toSequelize (PObject [(''a'', PScalar (Num (int_number 3)))]) =
     Inr (SObject [(KString ''where'', SObject [(KString ''data.a'', SScalar (Num (int_number 3)))])])"
proof -
  let ?p = "PObject [(''a'', PObject [(''$eqq'', PScalar (Num (int_number 3)))]),
                     (''id'', PScalar (Num (int_number 7))),
                     (''$or'', PArray [PObject [(''b'', PScalar (Bool True))]])]"
  let ?r = "[(KString ''data.a'', SObject [(KString ''data.$eqq'', SScalar (Num (int_number 3)))]),
           (KString ''id'', SScalar (Num (int_number 7))),
           (KSymbol Op_or, SArray [SObject [(KString ''data.b'', SScalar (Bool True))]])]"
  have rw: "rewrite ?p [] = Inr (?r, [])" by (rule nested_example)
  have tf: "throw_free ?p" by simp
  have op: "getSequelizeOperator ''a'' = Inr (KString ''data.a'')"
    by (simp add: getSequelizeOperator_def)
  note t = toSequelize_key_rewrite
    [where k = "''$eqq''" and p = ?p and sc = "[]" and r = ?r and sc' = "[]" and r' = ?r
       and k' = "''a''" and v = "PObject [(''$eqq'', PScalar (Num (int_number 3)))]"
       and nk = "KString ''data.a''"
       and kvs = "[(''a'', PObject [(''$eqq'', PScalar (Num (int_number 3)))]),
                     (''id'', PScalar (Num (int_number 7))),
                     (''$or'', PArray [PObject [(''b'', PScalar (Bool True))]])]"]
  show ?thesis
    using rw tf op t [where fs = "[(''id'', Num (int_number 3))]"]
      t [where fs = "[(''labels'', Str ''c,v'')]"]
      t [where fs = "[(''a'', Num (int_number 3))]"]
    by simp
qed

text \<open>
  Claim C7 as stated, that \<^verbatim>\<open>toSequelize\<close> rewrites the keys of every raw filter without
  throwing any error, fails on \<^verbatim>\<open>{$size: 4}\<close>, where the key rewrite throws, and on
  \<^verbatim>\<open>{a: [1, null]}\<close>, where \<^verbatim>\<open>Object.keys(null)\<close> raises a TypeError.
\<close>

theorem toSequelize_throws:
  "toSequelize (PObject [(''$size'', PScalar (Num (int_number 4)))]) =
     Inl (Error ''Should have been handled separately already.'')
 \<and> toSequelize (PObject [(''a'', PArray [PScalar (Num (int_number 1)), PScalar Null])]) =
     Inl (TypeError ''Cannot convert undefined or null to object'')"
  by code_simp

end
